theory Spec2Isabelle
  imports Main
begin

section \<open>Regular expressions as the source compiles them\<close>

text \<open>
  The four patterns of \<^verbatim>\<open>changelog/__init__.py\<close> use a small fragment of Python's
  \<^verbatim>\<open>re\<close> language: the anchor \<^verbatim>\<open>^\<close>, literal characters, the classes \<^verbatim>\<open>.\<close>,
  \<^verbatim>\<open>[0-9]\<close> and \<^verbatim>\<open>\s\<close> under the greedy quantifiers \<^verbatim>\<open>*\<close>, \<^verbatim>\<open>+\<close> and \<^verbatim>\<open>?\<close>, and
  capture groups that are not nested. A pattern is the list of its tokens; the matcher
  is the backtracking search of \<^verbatim>\<open>re\<close>: a greedy quantifier takes as many characters
  as it can and gives them back one at a time when the rest of the pattern fails.
  Strings are lists of 8-bit characters, read as the code points below 256; code points
  above U+00FF, among them the Unicode spaces that \<^verbatim>\<open>\s\<close> takes as well, are not
  represented.
\<close>

datatype cclass = AnyButNewline | Digit09 | Whitespace

fun in_class :: "cclass \<Rightarrow> char \<Rightarrow> bool" where
  "in_class AnyButNewline c = (c \<noteq> CHR 0x0A)"
| "in_class Digit09 c = (c \<in> set ''0123456789'')"
| "in_class Whitespace c =
     (c \<in> set [CHR 0x09, CHR 0x0A, CHR 0x0B, CHR 0x0C, CHR 0x0D,
                CHR 0x1C, CHR 0x1D, CHR 0x1E, CHR 0x1F, CHR 0x20, CHR 0x85, CHR 0xA0])"

datatype tok = Bol | Lit char | Star cclass | Plus cclass | Opt cclass | GOpen | GClose

record pattern =
  multiline :: bool
  toks :: "tok list"

text \<open>
  \<open>bt ml ts pre s g gs\<close> matches the tokens \<open>ts\<close> against \<open>s\<close>, the text that follows
  the already consumed \<open>pre\<close>; \<open>g\<close> is the position where the open group started and
  \<open>gs\<close> the groups closed so far. The result is the groups of the first match in
  backtracking order, or \<open>None\<close>.
\<close>

fun bt :: "bool \<Rightarrow> tok list \<Rightarrow> string \<Rightarrow> string \<Rightarrow> nat \<Rightarrow> string list \<Rightarrow> string list option" where
  "bt ml [] pre s g gs = Some gs"
| "bt ml (Bol # ts) pre s g gs =
     (if pre = [] \<or> (ml \<and> last pre = CHR 0x0A) then bt ml ts pre s g gs else None)"
| "bt ml (Lit c # ts) pre [] g gs = None"
| "bt ml (Lit c # ts) pre (x # xs) g gs =
     (if x = c then bt ml ts (pre @ [x]) xs g gs else None)"
| "bt ml (GOpen # ts) pre s g gs = bt ml ts pre s (length pre) gs"
| "bt ml (GClose # ts) pre s g gs = bt ml ts pre s g (gs @ [drop g pre])"
| "bt ml (Opt cc # ts) pre [] g gs = bt ml ts pre [] g gs"
| "bt ml (Opt cc # ts) pre (x # xs) g gs =
     (if in_class cc x
      then (case bt ml ts (pre @ [x]) xs g gs of
              Some r \<Rightarrow> Some r
            | None \<Rightarrow> bt ml ts pre (x # xs) g gs)
      else bt ml ts pre (x # xs) g gs)"
| "bt ml (Plus cc # ts) pre [] g gs = None"
| "bt ml (Plus cc # ts) pre (x # xs) g gs =
     (if in_class cc x then bt ml (Star cc # ts) (pre @ [x]) xs g gs else None)"
| "bt ml (Star cc # ts) pre [] g gs = bt ml ts pre [] g gs"
| "bt ml (Star cc # ts) pre (x # xs) g gs =
     (if in_class cc x
      then (case bt ml (Star cc # ts) (pre @ [x]) xs g gs of
              Some r \<Rightarrow> Some r
            | None \<Rightarrow> bt ml ts pre (x # xs) g gs)
      else bt ml ts pre (x # xs) g gs)"

text \<open>\<^verbatim>\<open>pattern.match(s)\<close>: a match that starts at position 0.\<close>

definition re_match :: "pattern \<Rightarrow> string \<Rightarrow> string list option" where
  "re_match p s = bt (multiline p) (toks p) [] s 0 []"

text \<open>\<^verbatim>\<open>pattern.search(s)\<close>: the match at the first position that has one.\<close>

fun search_from :: "pattern \<Rightarrow> string \<Rightarrow> string \<Rightarrow> string list option" where
  "search_from p pre [] = bt (multiline p) (toks p) pre [] 0 []"
| "search_from p pre (x # xs) =
     (case bt (multiline p) (toks p) pre (x # xs) 0 [] of
        Some r \<Rightarrow> Some r
      | None \<Rightarrow> search_from p (pre @ [x]) xs)"

definition re_search :: "pattern \<Rightarrow> string \<Rightarrow> string list option" where
  "re_search p s = search_from p [] s"

section \<open>Python values\<close>

text \<open>
  The exceptions the program raises or lets through, and the values \<^verbatim>\<open>response.json()\<close>
  decodes a body to: \<^verbatim>\<open>None\<close>, booleans, integers, floats, strings, lists and dicts. A
  dict is written as the members of the JSON object in the order of the text; where a
  name is repeated the decoder keeps its first position and its last value. The program
  does no arithmetic on a float: it asks for its truth value and for its text only, so
  a float is written as the text \<^verbatim>\<open>repr\<close> gives for it.
\<close>

datatype error =
    PyException string
  | PyTypeError
  | PyKeyError
  | PyValueError
  | PyIndexError

datatype json_value =
    JNull
  | JBool bool
  | JInt int
  | JFloat string
  | JStr string
  | JArr "json_value list"
  | JObj "(string \<times> json_value) list"

text \<open>\<^verbatim>\<open>sep.join(xs)\<close> and \<^verbatim>\<open>str(n)\<close> on an integer.\<close>

fun join :: "string \<Rightarrow> string list \<Rightarrow> string" where
  "join sep [] = []"
| "join sep [x] = x"
| "join sep (x # y # ys) = x @ sep @ join sep (y # ys)"

fun digits_of_nat :: "nat \<Rightarrow> string" where
  "digits_of_nat n =
     (if n < 10 then [''0123456789'' ! n]
      else digits_of_nat (n div 10) @ [''0123456789'' ! (n mod 10)])"

declare digits_of_nat.simps [simp del]

definition py_str_int :: "int \<Rightarrow> string" where
  "py_str_int i = (if i < 0 then ''-'' @ digits_of_nat (nat (- i)) else digits_of_nat (nat i))"

text \<open>The items of a dict, and \<^verbatim>\<open>d[key]\<close> as the lookup in them.\<close>

fun dict_set :: "(string \<times> 'a) list \<Rightarrow> string \<Rightarrow> 'a \<Rightarrow> (string \<times> 'a) list" where
  "dict_set [] k v = [(k, v)]"
| "dict_set ((k', v') # d) k v = (if k' = k then (k, v) # d else (k', v') # dict_set d k v)"

definition dict_items :: "(string \<times> 'a) list \<Rightarrow> (string \<times> 'a) list" where
  "dict_items members = fold (\<lambda>(k, v) d. dict_set d k v) members []"

text \<open>The truth value of an object: \<^verbatim>\<open>None\<close>, \<^verbatim>\<open>False\<close>, zero and the empty containers are false.\<close>

fun truthy :: "json_value \<Rightarrow> bool" where
  "truthy JNull = False"
| "truthy (JBool b) = b"
| "truthy (JInt n) = (n \<noteq> 0)"
| "truthy (JFloat r) = (r \<noteq> ''0.0'' \<and> r \<noteq> ''-0.0'')"
| "truthy (JStr s) = (s \<noteq> [])"
| "truthy (JArr xs) = (xs \<noteq> [])"
| "truthy (JObj members) = (members \<noteq> [])"

text \<open>
  \<^verbatim>\<open>x[0]\<close>: the first element of a list, the first character of a string,
  \<^verbatim>\<open>IndexError\<close> when they are empty; \<^verbatim>\<open>KeyError\<close> on a dict, whose keys are strings;
  \<^verbatim>\<open>TypeError\<close> on every other object.
\<close>

fun getitem_0 :: "json_value \<Rightarrow> error + json_value" where
  "getitem_0 (JArr []) = Inl PyIndexError"
| "getitem_0 (JArr (x # xs)) = Inr x"
| "getitem_0 (JStr []) = Inl PyIndexError"
| "getitem_0 (JStr (c # cs)) = Inr (JStr [c])"
| "getitem_0 (JObj members) = Inl PyKeyError"
| "getitem_0 JNull = Inl PyTypeError"
| "getitem_0 (JBool b) = Inl PyTypeError"
| "getitem_0 (JInt n) = Inl PyTypeError"
| "getitem_0 (JFloat r) = Inl PyTypeError"

text \<open>
  \<^verbatim>\<open>x[key]\<close> with a string for key: the value or \<^verbatim>\<open>KeyError\<close> on a dict, \<^verbatim>\<open>TypeError\<close> on
  every other object (lists and strings take integers, the rest cannot be subscripted).
\<close>

fun getitem_key :: "json_value \<Rightarrow> string \<Rightarrow> error + json_value" where
  "getitem_key (JObj members) k =
     (case map_of (dict_items members) k of None \<Rightarrow> Inl PyKeyError | Some v \<Rightarrow> Inr v)"
| "getitem_key JNull k = Inl PyTypeError"
| "getitem_key (JBool b) k = Inl PyTypeError"
| "getitem_key (JInt n) k = Inl PyTypeError"
| "getitem_key (JFloat r) k = Inl PyTypeError"
| "getitem_key (JStr s) k = Inl PyTypeError"
| "getitem_key (JArr xs) k = Inl PyTypeError"

text \<open>
  \<^verbatim>\<open>repr\<close> of a string: in single quotes, or in double quotes when it has a single quote
  and no double quote; the quote and the backslash escaped, tab, newline and return by
  their letters, and every other character that is not printable as \<^verbatim>\<open>\xNN\<close>.
\<close>

definition printable :: "char \<Rightarrow> bool" where
  "printable c =
     (let n = (of_char c :: nat) in (32 \<le> n \<and> n < 127) \<or> (161 \<le> n \<and> n \<noteq> 173))"

definition hex2 :: "char \<Rightarrow> string" where
  "hex2 c =
     (let n = (of_char c :: nat)
      in [''0123456789abcdef'' ! (n div 16), ''0123456789abcdef'' ! (n mod 16)])"

definition repr_char :: "char \<Rightarrow> char \<Rightarrow> string" where
  "repr_char q c =
     (if c = q \<or> c = CHR 0x5C then [CHR 0x5C, c]
      else if c = CHR 0x09 then [CHR 0x5C, CHR ''t'']
      else if c = CHR 0x0A then [CHR 0x5C, CHR ''n'']
      else if c = CHR 0x0D then [CHR 0x5C, CHR ''r'']
      else if printable c then [c]
      else [CHR 0x5C, CHR ''x''] @ hex2 c)"

definition repr_str :: "string \<Rightarrow> string" where
  "repr_str s =
     (let q = (if CHR 0x27 \<in> set s \<and> CHR 0x22 \<notin> set s then CHR 0x22 else CHR 0x27)
      in [q] @ concat (map (repr_char q) s) @ [q])"

text \<open>\<^verbatim>\<open>repr(x)\<close> and \<^verbatim>\<open>str(x)\<close>; they differ on strings only.\<close>

function py_repr :: "json_value \<Rightarrow> string" where
  "py_repr JNull = ''None''"
| "py_repr (JBool b) = (if b then ''True'' else ''False'')"
| "py_repr (JInt n) = py_str_int n"
| "py_repr (JFloat r) = r"
| "py_repr (JStr s) = repr_str s"
| "py_repr (JArr xs) = ''['' @ join '', '' (map py_repr xs) @ '']''"
| "py_repr (JObj members) =
     ''{'' @ join '', '' (map (\<lambda>kv. repr_str (fst kv) @ '': '' @ py_repr (snd kv)) (dict_items members))
     @ ''}''"
  by pat_completeness auto

termination
proof (relation "measure size")
  show "wf (measure size)" by simp
next
  fix xs :: "json_value list" and x
  assume "x \<in> set xs"
  then show "(x, JArr xs) \<in> measure size"
    by (induction xs) auto
next
  fix members :: "(string \<times> json_value) list" and kv
  assume kv: "kv \<in> set (dict_items members)"
  have one: "set (dict_set d k v) \<subseteq> insert (k, v) (set d)"
    for d :: "(string \<times> json_value) list" and k v
    by (induction d) (auto split: if_splits)
  have "set (fold (\<lambda>(k, v) d. dict_set d k v) ms d0) \<subseteq> set ms \<union> set d0"
    for ms d0 :: "(string \<times> json_value) list"
  proof (induction ms arbitrary: d0)
    case Nil
    then show ?case by simp
  next
    case (Cons m ms)
    obtain k v where m: "m = (k, v)" by (cases m)
    from Cons[of "dict_set d0 k v"] one[of d0 k v] m show ?case by auto
  qed
  from this[of members "[]"] kv have "kv \<in> set members"
    by (auto simp: dict_items_def)
  then show "(snd kv, JObj members) \<in> measure size"
    by (induction members) auto
qed

definition py_str :: "json_value \<Rightarrow> string" where
  "py_str x = (case x of JStr s \<Rightarrow> s | _ \<Rightarrow> py_repr x)"

section \<open>The patterns and the commit classifier\<close>

definition lits :: "string \<Rightarrow> tok list" where
  "lits s = map Lit s"

definition MERGE_PR_RE :: pattern where
  "MERGE_PR_RE = \<lparr>multiline = False, toks =
     [Bol] @ lits ''Merge pull request #'' @ [GOpen, Plus Digit09, GClose] @ lits '' from ''
     @ [Star AnyButNewline, Lit (CHR 0x0A), Lit (CHR 0x0A), GOpen, Star AnyButNewline, GClose]\<rparr>"

definition MERGE_RELEASE_PR_RE :: pattern where
  "MERGE_RELEASE_PR_RE = \<lparr>multiline = False, toks =
     [Bol] @ lits ''Merge pull request #'' @ [GOpen, Plus Digit09, GClose] @ lits '' from ''
     @ [Star AnyButNewline] @ lits ''/release/''
     @ [Star AnyButNewline, Lit (CHR 0x0A), Lit (CHR 0x0A), GOpen, Star AnyButNewline, GClose]\<rparr>"

definition SQUASH_PR_RE :: pattern where
  "SQUASH_PR_RE = \<lparr>multiline = False, toks =
     [Bol, GOpen, Star AnyButNewline, GClose] @ lits '' (#'' @ [GOpen, Plus Digit09, GClose]
     @ lits '')'' @ [Star AnyButNewline]\<rparr>"

definition CHANGELOG_RE :: pattern where
  "CHANGELOG_RE = \<lparr>multiline = True, toks =
     [Bol] @ lits ''CHANGELOG:'' @ [Opt Whitespace, GOpen, Star AnyButNewline, GClose]\<rparr>"

record pull_request =
  number :: string
  title :: json_value

text \<open>
  \<^verbatim>\<open>is_pr\<close> returns what \<^verbatim>\<open>a or b\<close> returns: the first match object, else the second
  result. A match object is always true and \<^verbatim>\<open>None\<close> is false, so the value is true
  exactly when it is not \<open>None\<close>.
\<close>

definition is_pr :: "string \<Rightarrow> string list option" where
  "is_pr msg =
     (case re_search MERGE_PR_RE msg of
        Some m \<Rightarrow> Some m
      | None \<Rightarrow> re_search SQUASH_PR_RE msg)"

definition is_release_merge :: "string \<Rightarrow> string list option" where
  "is_release_merge msg = re_search MERGE_RELEASE_PR_RE msg"

text \<open>
  Unpacking \<^verbatim>\<open>groups()\<close> into two names raises \<^verbatim>\<open>ValueError\<close> when the tuple does not
  have two components; both patterns have two groups, so the branch is never taken
  (lemma \<open>bt_groups\<close> below), and it is kept as a branch of the model.
\<close>

definition extract_pr :: "string \<Rightarrow> error + pull_request" where
  "extract_pr msg =
     (let merge_match = re_match MERGE_PR_RE msg;
          squash_match = re_match SQUASH_PR_RE msg
      in case merge_match of
           Some gs \<Rightarrow>
             (case gs of
                [n, t] \<Rightarrow> Inr \<lparr>number = n, title = JStr t\<rparr>
              | _ \<Rightarrow> Inl PyValueError)
         | None \<Rightarrow>
             (case squash_match of
                Some gs \<Rightarrow>
                  (case gs of
                     [t, n] \<Rightarrow> Inr \<lparr>number = n, title = JStr t\<rparr>
                   | _ \<Rightarrow> Inl PyValueError)
              | None \<Rightarrow> Inl (PyException (''Commit isn't a PR merge, '' @ msg))))"

definition extract_changelog :: "string option \<Rightarrow> string option" where
  "extract_changelog pr_body =
     (case pr_body of
        None \<Rightarrow> None
      | Some b \<Rightarrow>
          (case re_search CHANGELOG_RE b of
             Some [changelog] \<Rightarrow> Some changelog
           | _ \<Rightarrow> None))"

section \<open>The remote platform\<close>

text \<open>
  \<^verbatim>\<open>requests.get\<close> is the only effect of the program. The remote side is a state
  \<open>'w\<close> that every request may read and change, so two requests for the same URL need
  not see the same answer; a request that gets no response at all raises inside
  \<^verbatim>\<open>requests.get\<close> and is not represented. A response carries its status code and what
  \<^verbatim>\<open>response.json()\<close> gives. For the lookup of the pull requests of a commit that is any decoded value, or
  nothing when the body is not JSON and \<^verbatim>\<open>response.json()\<close> raises \<^verbatim>\<open>ValueError\<close>. For the
  details of a pull request it is an object of the shape the platform documents: a
  \<^verbatim>\<open>body\<close>, which may be null, and \<^verbatim>\<open>labels\<close>, each with a \<^verbatim>\<open>name\<close>.
\<close>

record github_config =
  base_url :: string
  api_url :: string
  headers :: "(string \<times> string) list"

record commit =
  sha :: string
  message :: string

record pull_request_details =
  body :: "string option"
  labels :: "string list option"

record extended_pull_request =
  pr :: pull_request
  details :: pull_request_details

record 'a response =
  status_code :: int
  json :: 'a

record label_json =
  j_name :: string

record pull_json =
  j_body :: "string option"
  j_labels :: "label_json list"

record 'w requests =
  get_commit_pulls ::
    "string \<Rightarrow> (string \<times> string) list \<Rightarrow> 'w \<Rightarrow> json_value option response \<times> 'w"
  get_pull ::
    "string \<Rightarrow> (string \<times> string) list \<Rightarrow> 'w \<Rightarrow> pull_json response \<times> 'w"

text \<open>
  \<^verbatim>\<open>get_pr_details\<close> reads \<^verbatim>\<open>pr_response["message"]\<close> while it builds the message of
  its \<^verbatim>\<open>GitHubError\<close>; a response object of \<^verbatim>\<open>requests\<close> cannot be subscripted, so
  what is raised on a status other than 200 is a \<^verbatim>\<open>TypeError\<close>.
\<close>

definition get_pr_details ::
  "'w requests \<Rightarrow> github_config \<Rightarrow> string \<Rightarrow> string \<Rightarrow> string \<Rightarrow> 'w
   \<Rightarrow> (error + pull_request_details) \<times> 'w" where
  "get_pr_details rq github_config owner repo pr_number w =
     (let pr_url = join ''/'' [api_url github_config, ''repos'', owner, repo, ''pulls'', pr_number];
          (pr_response, w') = get_pull rq pr_url (headers github_config) w;
          pr_json = json pr_response
      in if status_code pr_response \<noteq> 200 then (Inl PyTypeError, w')
         else (Inr \<lparr>body = j_body pr_json, labels = Some (map j_name (j_labels pr_json))\<rparr>, w'))"

definition get_pr_for_commit ::
  "'w requests \<Rightarrow> github_config \<Rightarrow> string \<Rightarrow> string \<Rightarrow> string \<Rightarrow> 'w
   \<Rightarrow> (error + pull_request option) \<times> 'w" where
  "get_pr_for_commit rq github_config owner repo commit_sha w =
     (let search_url =
            join ''/'' [api_url github_config, ''repos'', owner, repo, ''commits'', commit_sha, ''pulls''];
          (resp, w') = get_commit_pulls rq search_url (headers github_config) w
      in if status_code resp \<noteq> 200 then (Inr None, w')
         else (case json resp of
                 None \<Rightarrow> (Inl PyValueError, w')
               | Some pulls \<Rightarrow>
                   if \<not> truthy pulls then (Inr None, w')
                   else (case getitem_0 pulls of
                           Inl e \<Rightarrow> (Inl e, w')
                         | Inr p \<Rightarrow>
                             (case getitem_key p ''number'' of
                                Inl e \<Rightarrow> (Inl e, w')
                              | Inr n \<Rightarrow>
                                  (case getitem_key p ''title'' of
                                     Inl e \<Rightarrow> (Inl e, w')
                                   | Inr t \<Rightarrow> (Inr (Some \<lparr>number = py_str n, title = t\<rparr>), w'))))))"

section \<open>The change resolver\<close>

text \<open>
  The loop of \<^verbatim>\<open>fetch_changes\<close> over \<^verbatim>\<open>commits_between\<close>, with its two variables
  \<^verbatim>\<open>prs\<close> and \<^verbatim>\<open>processed_pr_numbers\<close>. The list \<^verbatim>\<open>commits_between\<close> is what the lines
  before the loop obtain from the compare endpoint; the embedding starts from it.
\<close>

record walk_state =
  prs :: "pull_request list"
  processed_pr_numbers :: "string set"

definition add_pr :: "pull_request option \<Rightarrow> walk_state \<Rightarrow> walk_state" where
  "add_pr found st =
     (case found of
        None \<Rightarrow> st
      | Some p \<Rightarrow>
          if number p \<notin> processed_pr_numbers st
          then \<lparr>prs = prs st @ [p], processed_pr_numbers = insert (number p) (processed_pr_numbers st)\<rparr>
          else st)"

fun walk ::
  "'w requests \<Rightarrow> github_config \<Rightarrow> string \<Rightarrow> string \<Rightarrow> bool \<Rightarrow> commit list \<Rightarrow> walk_state \<Rightarrow> 'w
   \<Rightarrow> (error + walk_state) \<times> 'w" where
  "walk rq cfg owner repo ignore_release_merge [] st w = (Inr st, w)"
| "walk rq cfg owner repo ignore_release_merge (c # cs) st w =
     (if is_pr (message c) \<noteq> None then
        if ignore_release_merge \<and> is_release_merge (message c) \<noteq> None
        then walk rq cfg owner repo ignore_release_merge cs st w
        else (case extract_pr (message c) of
                Inl e \<Rightarrow> (Inl e, w)
              | Inr p \<Rightarrow> walk rq cfg owner repo ignore_release_merge cs (add_pr (Some p) st) w)
      else (case get_pr_for_commit rq cfg owner repo (sha c) w of
              (Inl e, w') \<Rightarrow> (Inl e, w')
            | (Inr found, w') \<Rightarrow> walk rq cfg owner repo ignore_release_merge cs (add_pr found st) w'))"

text \<open>The list comprehension that fetches the details, in the order of \<^verbatim>\<open>prs\<close>.\<close>

fun fetch_details ::
  "'w requests \<Rightarrow> github_config \<Rightarrow> string \<Rightarrow> string \<Rightarrow> pull_request list \<Rightarrow> 'w
   \<Rightarrow> (error + extended_pull_request list) \<times> 'w" where
  "fetch_details rq cfg owner repo [] w = (Inr [], w)"
| "fetch_details rq cfg owner repo (p # ps) w =
     (case get_pr_details rq cfg owner repo (number p) w of
        (Inl e, w') \<Rightarrow> (Inl e, w')
      | (Inr d, w') \<Rightarrow>
          (case fetch_details rq cfg owner repo ps w' of
             (Inl e, w'') \<Rightarrow> (Inl e, w'')
           | (Inr es, w'') \<Rightarrow> (Inr (\<lparr>pr = p, details = d\<rparr> # es), w'')))"

definition py_str_opt :: "string option \<Rightarrow> string" where
  "py_str_opt x = (case x of None \<Rightarrow> ''None'' | Some s \<Rightarrow> s)"

definition fetch_changes ::
  "'w requests \<Rightarrow> github_config \<Rightarrow> string \<Rightarrow> string \<Rightarrow> string option \<Rightarrow> bool \<Rightarrow> commit list \<Rightarrow> 'w
   \<Rightarrow> (error + extended_pull_request list) \<times> 'w" where
  "fetch_changes rq cfg owner repo branch ignore_release_merge commits_between w =
     (case walk rq cfg owner repo ignore_release_merge commits_between
             \<lparr>prs = [], processed_pr_numbers = {}\<rparr> w of
        (Inl e, w1) \<Rightarrow> (Inl e, w1)
      | (Inr st, w1) \<Rightarrow>
          (case fetch_details rq cfg owner repo (prs st) w1 of
             (Inl e, w2) \<Rightarrow> (Inl e, w2)
           | (Inr extended_prs, w2) \<Rightarrow>
               if length extended_prs = 0 \<and> length commits_between > 0
               then (Inl (PyException (''Lots of commits and no PRs on branch '' @ py_str_opt branch)), w2)
               else (Inr (rev extended_prs), w2)))"

section \<open>The severity formatter\<close>

definition LABEL_LEVELS :: "(string \<times> int) list" where
  "LABEL_LEVELS =
     [(''patch'', 3), (''hotfix'', 3), (''fix'', 3), (''minor'', 2), (''feature'', 2),
      (''breaking'', 1), (''major'', 1)]"

definition CHANGELOG_LEVEL_MESSAGE :: "(int \<times> string) list" where
  "CHANGELOG_LEVEL_MESSAGE = [(1, ''MAJOR RELEASE''), (2, ''MINOR RELEASE''), (3, ''PATCH RELEASE'')]"

text \<open>\<^verbatim>\<open>LABEL_LEVELS.get(label) or 2\<close>: 2 when the key is absent or its value is false.\<close>

definition label_level :: "string \<Rightarrow> int" where
  "label_level label =
     (case map_of LABEL_LEVELS label of
        None \<Rightarrow> 2
      | Some v \<Rightarrow> if v = 0 then 2 else v)"

text \<open>\<^verbatim>\<open>labels or []\<close>\<close>

definition labels_or_empty :: "string list option \<Rightarrow> string list" where
  "labels_or_empty ls = (case ls of None \<Rightarrow> [] | Some l \<Rightarrow> l)"

record format_state =
  lines :: "string list"
  change_level :: int

definition format_step ::
  "github_config \<Rightarrow> string \<Rightarrow> string \<Rightarrow> bool \<Rightarrow> extended_pull_request \<Rightarrow> format_state \<Rightarrow> format_state" where
  "format_step github_config owner repo markdown extended_pr st =
     (let p = pr extended_pr;
          num = ''#'' @ number p;
          num = (if markdown
                 then (let link = base_url github_config @ ''/'' @ owner @ ''/'' @ repo
                                   @ ''/pull/'' @ number p
                       in ''['' @ num @ '']('' @ link @ '')'')
                 else num);
          pr_changelog_description = extract_changelog (body (details extended_pr));
          lvl = change_level st;
          lvl = (if length (labels_or_empty (labels (details extended_pr))) = 0
                 then min lvl 2 else lvl);
          lvl = fold (\<lambda>label l. min l (label_level label))
                     (labels_or_empty (labels (details extended_pr))) lvl;
          description = (case pr_changelog_description of Some d \<Rightarrow> d | None \<Rightarrow> py_str (title p))
      in \<lparr>lines = lines st @ [''- '' @ description @ '' '' @ num], change_level = lvl\<rparr>)"

definition format_loop ::
  "github_config \<Rightarrow> string \<Rightarrow> string \<Rightarrow> bool \<Rightarrow> extended_pull_request list \<Rightarrow> format_state" where
  "format_loop github_config owner repo markdown eprs =
     fold (format_step github_config owner repo markdown) eprs \<lparr>lines = [], change_level = 3\<rparr>"

definition format_changes ::
  "github_config \<Rightarrow> string \<Rightarrow> string \<Rightarrow> extended_pull_request list \<Rightarrow> bool \<Rightarrow> error + string list" where
  "format_changes github_config owner repo eprs markdown =
     (let st = format_loop github_config owner repo markdown eprs
      in case map_of CHANGELOG_LEVEL_MESSAGE (change_level st) of
           None \<Rightarrow> Inl PyKeyError
         | Some header \<Rightarrow> Inr (header # lines st))"


section \<open>What the resolver and the formatter are specified to return\<close>

text \<open>
  \<open>candidates\<close> is the walk without its deduplication: the pull request each commit
  resolves to, in walk order, a commit that resolves to none (or is skipped) being left
  out. It reads the remote state in the order the walk does, and ends where the walk
  ends with an exception.
\<close>

fun candidates ::
  "'w requests \<Rightarrow> github_config \<Rightarrow> string \<Rightarrow> string \<Rightarrow> bool \<Rightarrow> commit list \<Rightarrow> 'w
   \<Rightarrow> pull_request list" where
  "candidates rq cfg owner repo ignore_release_merge [] w = []"
| "candidates rq cfg owner repo ignore_release_merge (c # cs) w =
     (if is_pr (message c) \<noteq> None then
        if ignore_release_merge \<and> is_release_merge (message c) \<noteq> None
        then candidates rq cfg owner repo ignore_release_merge cs w
        else (case extract_pr (message c) of
                Inl e \<Rightarrow> []
              | Inr p \<Rightarrow> p # candidates rq cfg owner repo ignore_release_merge cs w)
      else (case get_pr_for_commit rq cfg owner repo (sha c) w of
              (Inl e, w') \<Rightarrow> []
            | (Inr None, w') \<Rightarrow> candidates rq cfg owner repo ignore_release_merge cs w'
            | (Inr (Some p), w') \<Rightarrow> p # candidates rq cfg owner repo ignore_release_merge cs w'))"

text \<open>What the two variables of the loop keep true: the set holds the numbers of the list.\<close>

definition walk_inv :: "walk_state \<Rightarrow> bool" where
  "walk_inv st \<longleftrightarrow> processed_pr_numbers st = number ` set (prs st)"

text \<open>The exception of the first fallback lookup of the walk that raises, if one does.\<close>

fun walk_error ::
  "'w requests \<Rightarrow> github_config \<Rightarrow> string \<Rightarrow> string \<Rightarrow> commit list \<Rightarrow> 'w \<Rightarrow> error option" where
  "walk_error rq cfg owner repo [] w = None"
| "walk_error rq cfg owner repo (c # cs) w =
     (if is_pr (message c) \<noteq> None then walk_error rq cfg owner repo cs w
      else (case get_pr_for_commit rq cfg owner repo (sha c) w of
              (Inl e, w') \<Rightarrow> Some e
            | (Inr found, w') \<Rightarrow> walk_error rq cfg owner repo cs w'))"

text \<open>The remote state after the walk.\<close>

fun after_walk ::
  "'w requests \<Rightarrow> github_config \<Rightarrow> string \<Rightarrow> string \<Rightarrow> bool \<Rightarrow> commit list \<Rightarrow> 'w \<Rightarrow> 'w" where
  "after_walk rq cfg owner repo ignore_release_merge [] w = w"
| "after_walk rq cfg owner repo ignore_release_merge (c # cs) w =
     (if is_pr (message c) \<noteq> None then after_walk rq cfg owner repo ignore_release_merge cs w
      else (case get_pr_for_commit rq cfg owner repo (sha c) w of
              (Inl e, w') \<Rightarrow> w'
            | (Inr found, w') \<Rightarrow> after_walk rq cfg owner repo ignore_release_merge cs w'))"

text \<open>
  The responses on which \<^verbatim>\<open>get_pr_for_commit\<close> has a pull request to return: a list whose
  first element is a dict with the keys \<^verbatim>\<open>number\<close> and \<^verbatim>\<open>title\<close>.
\<close>

fun first_pull :: "json_value \<Rightarrow> (json_value \<times> json_value) option" where
  "first_pull (JArr (JObj members # rest)) =
     (case map_of (dict_items members) ''number'' of
        None \<Rightarrow> None
      | Some n \<Rightarrow>
          (case map_of (dict_items members) ''title'' of
             None \<Rightarrow> None
           | Some t \<Rightarrow> Some (n, t)))"
| "first_pull other = None"

text \<open>
  Deduplication by number as the specification words it: the first occurrence stays,
  every later pull request with the same number is dropped.
\<close>

function first_by_number :: "pull_request list \<Rightarrow> pull_request list" where
  "first_by_number [] = []"
| "first_by_number (p # ps) = p # first_by_number (filter (\<lambda>q. number q \<noteq> number p) ps)"
  by pat_completeness auto
termination
  by (relation "measure length") (auto simp: less_Suc_eq_le)

text \<open>
  The aggregate severity as the specification words it: the least level over the
  starting level PATCH (3), level MINOR (2) for every entry without labels, and the table
  level of every label of every entry.
\<close>

definition spec_label_level :: "string \<Rightarrow> int" where
  "spec_label_level l =
     (if l \<in> {''patch'', ''hotfix'', ''fix''} then 3
      else if l \<in> {''minor'', ''feature''} then 2
      else if l \<in> {''breaking'', ''major''} then 1
      else 2)"

definition entry_levels :: "extended_pull_request \<Rightarrow> int set" where
  "entry_levels e =
     (case labels (details e) of
        None \<Rightarrow> {2}
      | Some ls \<Rightarrow> if ls = [] then {2} else spec_label_level ` set ls)"

definition aggregate_severity :: "extended_pull_request list \<Rightarrow> int" where
  "aggregate_severity eprs = Min (insert 3 (\<Union> (entry_levels ` set eprs)))"

definition severity_header :: "int \<Rightarrow> string" where
  "severity_header l =
     (if l = 1 then ''MAJOR RELEASE'' else if l = 2 then ''MINOR RELEASE'' else ''PATCH RELEASE'')"

section \<open>Concrete runs\<close>

text \<open>
  A remote side that counts the requests it has served. Two commits carry no pattern and
  are resolved by the fallback lookup, one of them to a pull request that a squash commit
  of the walk names as well, under another title.
\<close>

definition example_config :: github_config where
  "example_config =
     \<lparr>base_url = ''https://github.com'', api_url = ''https://api.github.com'', headers = []\<rparr>"

definition example_requests :: "nat requests" where
  "example_requests =
     \<lparr>get_commit_pulls = (\<lambda>url hs w.
        (if url = ''https://api.github.com/repos/owner/repo/commits/commit1/pulls''
         then \<lparr>status_code = 200,
               json = Some (JArr [JObj [(''number'', JInt 100),
                                        (''title'', JStr ''Fix authentication bug'')]])\<rparr>
         else if url = ''https://api.github.com/repos/owner/repo/commits/commit3/pulls''
         then \<lparr>status_code = 200,
               json = Some (JArr [JObj [(''number'', JInt 101),
                                        (''title'', JStr ''Documentation updates'')]])\<rparr>
         else if url = ''https://api.github.com/repos/owner/repo/commits/commit4/pulls''
         then \<lparr>status_code = 404, json = Some (JObj [(''message'', JStr ''Not Found'')])\<rparr>
         else if url = ''https://api.github.com/repos/owner/repo/commits/commit6/pulls''
         then \<lparr>status_code = 200, json = Some (JObj [(''message'', JStr ''Server Error'')])\<rparr>
         else \<lparr>status_code = 200, json = Some (JArr [])\<rparr>, Suc w)),
      get_pull = (\<lambda>url hs w.
        (if url = ''https://api.github.com/repos/owner/repo/pulls/100''
         then \<lparr>status_code = 200,
               json = \<lparr>j_body = Some ''Fixes authentication issue'', j_labels = [\<lparr>j_name = ''bug''\<rparr>]\<rparr>\<rparr>
         else \<lparr>status_code = 200,
               json = \<lparr>j_body = Some ''Updates documentation'',
                       j_labels = [\<lparr>j_name = ''documentation''\<rparr>]\<rparr>\<rparr>, Suc w))\<rparr>"

definition example_walk :: "commit list" where
  "example_walk =
     [\<lparr>sha = ''commit1'', message = ''Fix bug in authentication''\<rparr>,
      \<lparr>sha = ''commit2'', message = ''Follow-up to the fix (#100)''\<rparr>,
      \<lparr>sha = ''commit3'', message = ''Update documentation''\<rparr>]"

definition example_result :: "extended_pull_request list" where
  "example_result =
     [\<lparr>pr = \<lparr>number = ''101'', title = JStr ''Documentation updates''\<rparr>,
       details = \<lparr>body = Some ''Updates documentation'', labels = Some [''documentation'']\<rparr>\<rparr>,
      \<lparr>pr = \<lparr>number = ''100'', title = JStr ''Fix authentication bug''\<rparr>,
       details = \<lparr>body = Some ''Fixes authentication issue'', labels = Some [''bug'']\<rparr>\<rparr>]"

text \<open>A walk none of whose commits carries a pattern or has a pull request on the remote side.\<close>

definition orphan_walk :: "commit list" where
  "orphan_walk =
     [\<lparr>sha = ''commit4'', message = ''I made some changes!''\<rparr>,
      \<lparr>sha = ''commit5'', message = ''Merge pull request from some/branch\<newline>\<newline>My Title''\<rparr>]"

text \<open>
  A walk whose second commit is answered with status 200 and a dict in place of the
  list.
\<close>

definition broken_walk :: "commit list" where
  "broken_walk =
     [\<lparr>sha = ''commit1'', message = ''Fix bug in authentication''\<rparr>,
      \<lparr>sha = ''commit6'', message = ''Add unit tests''\<rparr>,
      \<lparr>sha = ''commit3'', message = ''Update documentation''\<rparr>]"

text \<open>A remote side that answers the lookup with status 202 and a pull request.\<close>

definition accepted_requests :: "nat requests" where
  "accepted_requests =
     \<lparr>get_commit_pulls = (\<lambda>url hs w.
        (\<lparr>status_code = 202,
          json = Some (JArr [JObj [(''number'', JInt 123), (''title'', JStr ''Add new feature'')]])\<rparr>,
         Suc w)),
      get_pull = (\<lambda>url hs w. (\<lparr>status_code = 404, json = \<lparr>j_body = None, j_labels = []\<rparr>\<rparr>, Suc w))\<rparr>"



text \<open>Entries with labels, for the severity.\<close>

definition labelled_entries :: "extended_pull_request list" where
  "labelled_entries =
     [\<lparr>pr = \<lparr>number = ''1'', title = JStr ''first''\<rparr>,
       details = \<lparr>body = None, labels = Some [''fix'']\<rparr>\<rparr>,
      \<lparr>pr = \<lparr>number = ''2'', title = JStr ''second''\<rparr>,
       details = \<lparr>body = None, labels = Some [''documentation'', ''breaking'']\<rparr>\<rparr>,
      \<lparr>pr = \<lparr>number = ''3'', title = JStr ''third''\<rparr>, details = \<lparr>body = None, labels = None\<rparr>\<rparr>]"

section \<open>Properties of the matcher\<close>

declare in_class.simps [simp del]

lemma bt_lits: "bt ml (lits l @ ts) pre (l @ s) g gs = bt ml ts (pre @ l) s g gs"
  by (induction l arbitrary: pre) (simp_all add: lits_def)

lemma bt_lits_Some:
  "bt ml (lits l @ ts) pre s g gs = Some r \<Longrightarrow> \<exists>s'. s = l @ s' \<and> bt ml ts (pre @ l) s' g gs = Some r"
proof (induction l arbitrary: pre s)
  case Nil
  then show ?case by (simp add: lits_def)
next
  case (Cons c l)
  from Cons.prems obtain s0 where s: "s = c # s0" and
    "bt ml (lits l @ ts) (pre @ [c]) s0 g gs = Some r"
    by (cases s) (auto simp: lits_def split: if_splits)
  from Cons.IH[OF this(2)] obtain s' where "s0 = l @ s'" "bt ml ts ((pre @ [c]) @ l) s' g gs = Some r"
    by blast
  with s show ?case by simp
qed

lemma bt_Star_greedy:
  "\<forall>c\<in>set xs. in_class cc c \<Longrightarrow> s = [] \<or> \<not> in_class cc (hd s) \<Longrightarrow>
   bt ml ts (pre @ xs) s g gs = Some r \<Longrightarrow> bt ml (Star cc # ts) pre (xs @ s) g gs = Some r"
proof (induction xs arbitrary: pre)
  case Nil
  then show ?case by (cases s) auto
next
  case (Cons x xs)
  then show ?case by simp
qed

lemma bt_Star_Some:
  "bt ml (Star cc # ts) pre s g gs = Some r \<Longrightarrow>
   \<exists>xs s'. s = xs @ s' \<and> (\<forall>c\<in>set xs. in_class cc c) \<and> bt ml ts (pre @ xs) s' g gs = Some r"
proof (induction s arbitrary: pre)
  case Nil
  then show ?case by simp
next
  case (Cons x s)
  show ?case
  proof (cases "in_class cc x \<and> bt ml (Star cc # ts) (pre @ [x]) s g gs \<noteq> None")
    case True
    with Cons.prems have "bt ml (Star cc # ts) (pre @ [x]) s g gs = Some r" by auto
    from Cons.IH[OF this] obtain xs s' where
      "s = xs @ s'" "\<forall>c\<in>set xs. in_class cc c" "bt ml ts ((pre @ [x]) @ xs) s' g gs = Some r" by blast
    with True show ?thesis
      by (intro exI[of _ "x # xs"] exI[of _ s']) simp
  next
    case False
    with Cons.prems have "bt ml ts pre (x # s) g gs = Some r" by (auto split: if_splits option.splits)
    then show ?thesis by (intro exI[of _ "[]"] exI[of _ "x # s"]) simp
  qed
qed

lemma bt_Star_longest:
  "\<forall>c\<in>set xs. in_class cc c \<Longrightarrow> bt ml ts (pre @ xs) s g gs = Some r0 \<Longrightarrow>
   \<exists>ys s' r. bt ml (Star cc # ts) pre (xs @ s) g gs = Some r \<and> xs @ s = ys @ s' \<and>
     length xs \<le> length ys \<and> (\<forall>c\<in>set ys. in_class cc c) \<and> bt ml ts (pre @ ys) s' g gs = Some r"
proof (induction xs arbitrary: pre)
  case Nil
  show ?case
  proof (cases "bt ml (Star cc # ts) pre s g gs")
    case None
    with Nil show ?thesis by (cases s) (auto split: if_splits option.splits)
  next
    case (Some r)
    from bt_Star_Some[OF this] Some show ?thesis by auto
  qed
next
  case (Cons x xs)
  from Cons.prems have "bt ml ts ((pre @ [x]) @ xs) s g gs = Some r0" by simp
  from Cons.IH[OF _ this] Cons.prems(1) obtain ys s' r where
    h: "bt ml (Star cc # ts) (pre @ [x]) (xs @ s) g gs = Some r" "xs @ s = ys @ s'"
       "length xs \<le> length ys" "\<forall>c\<in>set ys. in_class cc c" "bt ml ts ((pre @ [x]) @ ys) s' g gs = Some r"
    by auto
  with Cons.prems(1) show ?case
    by (intro exI[of _ "x # ys"] exI[of _ s'] exI[of _ r]) simp
qed

lemma bt_Plus_greedy:
  "xs \<noteq> [] \<Longrightarrow> \<forall>c\<in>set xs. in_class cc c \<Longrightarrow> s = [] \<or> \<not> in_class cc (hd s) \<Longrightarrow>
   bt ml ts (pre @ xs) s g gs = Some r \<Longrightarrow> bt ml (Plus cc # ts) pre (xs @ s) g gs = Some r"
  by (cases xs) (simp_all add: bt_Star_greedy)

lemma bt_Plus_Some:
  "bt ml (Plus cc # ts) pre s g gs = Some r \<Longrightarrow>
   \<exists>xs s'. s = xs @ s' \<and> xs \<noteq> [] \<and> (\<forall>c\<in>set xs. in_class cc c) \<and> bt ml ts (pre @ xs) s' g gs = Some r"
proof (cases s)
  case Nil
  assume "bt ml (Plus cc # ts) pre s g gs = Some r"
  with Nil show ?thesis by simp
next
  case (Cons x s0)
  assume a: "bt ml (Plus cc # ts) pre s g gs = Some r"
  with Cons have ic: "in_class cc x" and "bt ml (Star cc # ts) (pre @ [x]) s0 g gs = Some r"
    by (auto split: if_splits)
  from bt_Star_Some[OF this(2)] obtain xs s' where
    "s0 = xs @ s'" "\<forall>c\<in>set xs. in_class cc c" "bt ml ts ((pre @ [x]) @ xs) s' g gs = Some r" by blast
  with Cons ic show ?thesis
    by (intro exI[of _ "x # xs"] exI[of _ s']) simp
qed

lemma bt_Star_last: "bt ml [Star cc] pre s g gs = Some gs"
  by (induction s arbitrary: pre) simp_all

lemma bt_groups:
  "bt ml ts pre s g gs = Some r \<Longrightarrow> length r = length gs + count_list ts GClose"
  by (induction ml ts pre s g gs rule: bt.induct) (auto split: if_splits option.splits)

lemma bt_Bol_inner: "pre \<noteq> [] \<Longrightarrow> bt False (Bol # ts) pre s g gs = None"
  by simp

lemma search_from_anchored:
  "\<not> multiline p \<Longrightarrow> toks p = Bol # ts \<Longrightarrow> pre \<noteq> [] \<Longrightarrow> search_from p pre s = None"
  by (induction s arbitrary: pre) simp_all

lemma re_search_anchored:
  "\<not> multiline p \<Longrightarrow> toks p = Bol # ts \<Longrightarrow> re_search p s = re_match p s"
  by (cases s) (auto simp: re_search_def re_match_def search_from_anchored split: option.splits)


lemma merge_re_anchored: "re_search MERGE_PR_RE s = re_match MERGE_PR_RE s"
  by (rule re_search_anchored) (simp_all add: MERGE_PR_RE_def)

lemma squash_re_anchored: "re_search SQUASH_PR_RE s = re_match SQUASH_PR_RE s"
  by (rule re_search_anchored) (simp_all add: SQUASH_PR_RE_def)

lemma merge_re_groups: "re_match MERGE_PR_RE s = Some r \<Longrightarrow> \<exists>n t. r = [n, t]"
proof -
  assume "re_match MERGE_PR_RE s = Some r"
  then have "bt False (toks MERGE_PR_RE) [] s 0 [] = Some r"
    by (simp add: re_match_def MERGE_PR_RE_def)
  from bt_groups[OF this] have "length r = 2"
    by (simp add: MERGE_PR_RE_def lits_def)
  then show ?thesis
    by (cases r; cases "tl r"; cases "tl (tl r)") auto
qed

lemma squash_re_groups: "re_match SQUASH_PR_RE s = Some r \<Longrightarrow> \<exists>t n. r = [t, n]"
proof -
  assume "re_match SQUASH_PR_RE s = Some r"
  then have "bt False (toks SQUASH_PR_RE) [] s 0 [] = Some r"
    by (simp add: re_match_def SQUASH_PR_RE_def)
  from bt_groups[OF this] have "length r = 2"
    by (simp add: SQUASH_PR_RE_def lits_def)
  then show ?thesis
    by (cases r; cases "tl r"; cases "tl (tl r)") auto
qed

lemma bt_gs_prefix: "bt ml ts pre s g gs = Some r \<Longrightarrow> \<exists>q. r = gs @ q"
  by (induction ml ts pre s g gs rule: bt.induct) (auto split: if_splits option.splits)

lemma not_digit_space: "\<not> in_class Digit09 (CHR '' '')" and not_digit_paren: "\<not> in_class Digit09 (CHR '')'')"
  and not_any_newline: "\<not> in_class AnyButNewline (CHR 0x0A)"
  by (simp_all add: in_class.simps)

lemma any_iff: "(\<forall>c\<in>set xs. in_class AnyButNewline c) \<longleftrightarrow> CHR 0x0A \<notin> set xs"
  by (auto simp: in_class.simps)

lemma merge_template_match:
  assumes msg: "msg = ''Merge pull request #'' @ ds @ '' from '' @ branch @ [CHR 0x0A, CHR 0x0A] @ t @ tail"
    and ds: "ds \<noteq> []" "\<forall>c\<in>set ds. in_class Digit09 c"
    and br: "CHR 0x0A \<notin> set branch"
    and t: "CHR 0x0A \<notin> set t" "tail = [] \<or> hd tail = CHR 0x0A"
  shows "re_match MERGE_PR_RE msg = Some [ds, t]"
proof -
  have s5: "bt False [Star AnyButNewline, GClose] pre (t @ tail) g gs = Some (gs @ [drop g (pre @ t)])"
    for pre g gs
  proof (rule bt_Star_greedy)
    show "\<forall>c\<in>set t. in_class AnyButNewline c" using t(1) by (simp add: any_iff)
    show "tail = [] \<or> \<not> in_class AnyButNewline (hd tail)" using t(2) by (auto simp: not_any_newline)
    show "bt False [GClose] (pre @ t) tail g gs = Some (gs @ [drop g (pre @ t)])" by simp
  qed
  have s4: "bt False [Star AnyButNewline, Lit (CHR 0x0A), Lit (CHR 0x0A), GOpen, Star AnyButNewline, GClose]
              pre (branch @ [CHR 0x0A, CHR 0x0A] @ t @ tail) g gs = Some (gs @ [t])"
    for pre g gs
  proof (rule bt_Star_greedy)
    show "\<forall>c\<in>set branch. in_class AnyButNewline c" using br by (simp add: any_iff)
    show "[CHR 0x0A, CHR 0x0A] @ t @ tail = [] \<or> \<not> in_class AnyButNewline (hd ([CHR 0x0A, CHR 0x0A] @ t @ tail))"
      by (simp add: not_any_newline)
    show "bt False [Lit (CHR 0x0A), Lit (CHR 0x0A), GOpen, Star AnyButNewline, GClose] (pre @ branch)
            ([CHR 0x0A, CHR 0x0A] @ t @ tail) g gs = Some (gs @ [t])"
      by (simp add: s5)
  qed
  have s3: "bt False (Plus Digit09 # GClose # lits '' from '' @
              [Star AnyButNewline, Lit (CHR 0x0A), Lit (CHR 0x0A), GOpen, Star AnyButNewline, GClose])
              pre (ds @ '' from '' @ branch @ [CHR 0x0A, CHR 0x0A] @ t @ tail) (length pre) gs
            = Some (gs @ [ds, t])"
    for pre gs
  proof (rule bt_Plus_greedy)
    show "ds \<noteq> []" by (rule ds(1))
    show "\<forall>c\<in>set ds. in_class Digit09 c" by (rule ds(2))
    show "'' from '' @ branch @ [CHR 0x0A, CHR 0x0A] @ t @ tail = [] \<or>
          \<not> in_class Digit09 (hd ('' from '' @ branch @ [CHR 0x0A, CHR 0x0A] @ t @ tail))"
      by (simp add: not_digit_space)
    show "bt False (GClose # lits '' from '' @
              [Star AnyButNewline, Lit (CHR 0x0A), Lit (CHR 0x0A), GOpen, Star AnyButNewline, GClose])
            (pre @ ds) ('' from '' @ branch @ [CHR 0x0A, CHR 0x0A] @ t @ tail) (length pre) gs
          = Some (gs @ [ds, t])"
      using s4[of "pre @ ds @ '' from ''" "length pre" "gs @ [ds]"] by (simp add: lits_def)
  qed
  show ?thesis
    using s3[of "''Merge pull request #''" "[]"]
    by (simp add: re_match_def MERGE_PR_RE_def lits_def msg)
qed

lemma squash_match_shape:
  assumes "re_match SQUASH_PR_RE msg = Some r"
  shows "\<exists>ttl num rest. r = [ttl, num] \<and> msg = ttl @ '' (#'' @ num @ '')'' @ rest \<and> num \<noteq> [] \<and>
           (\<forall>c\<in>set num. in_class Digit09 c) \<and> CHR 0x0A \<notin> set ttl"
proof -
  let ?K2 = "GClose # lits '')'' @ [Star AnyButNewline]"
  let ?K1 = "GClose # lits '' (#'' @ GOpen # Plus Digit09 # ?K2"
  from assms have "bt False (Star AnyButNewline # ?K1) [] msg 0 [] = Some r"
    by (simp add: re_match_def SQUASH_PR_RE_def)
  from bt_Star_Some[OF this] obtain ttl s1 where
    m1: "msg = ttl @ s1" and c1: "\<forall>c\<in>set ttl. in_class AnyButNewline c"
    and b1: "bt False ?K1 ([] @ ttl) s1 0 [] = Some r" by blast
  from b1 have "bt False (lits '' (#'' @ GOpen # Plus Digit09 # ?K2) ttl s1 0 [ttl] = Some r"
    by simp
  from bt_lits_Some[OF this] obtain s2 where
    m2: "s1 = '' (#'' @ s2" and b2: "bt False (GOpen # Plus Digit09 # ?K2) (ttl @ '' (#'') s2 0 [ttl] = Some r"
    by blast
  from b2 have "bt False (Plus Digit09 # ?K2) (ttl @ '' (#'') s2 (length (ttl @ '' (#'')) [ttl] = Some r"
    by (simp only: bt.simps)
  from bt_Plus_Some[OF this] obtain num s3 where
    m3: "s2 = num @ s3" and n3: "num \<noteq> []" and c3: "\<forall>c\<in>set num. in_class Digit09 c"
    and b3: "bt False ?K2 ((ttl @ '' (#'') @ num) s3 (length (ttl @ '' (#'')) [ttl] = Some r" by blast
  from b3 have "bt False (lits '')'' @ [Star AnyButNewline]) ((ttl @ '' (#'') @ num) s3 (length (ttl @ '' (#''))
                  ([ttl] @ [drop (length (ttl @ '' (#'')) ((ttl @ '' (#'') @ num)]) = Some r"
    by (simp only: bt.simps)
  then have "bt False (lits '')'' @ [Star AnyButNewline]) ((ttl @ '' (#'') @ num) s3 (length (ttl @ '' (#''))
                  [ttl, num] = Some r"
    by simp
  from bt_lits_Some[OF this] obtain s4 where
    m4: "s3 = '')'' @ s4" and b4: "bt False [Star AnyButNewline] (((ttl @ '' (#'') @ num) @ '')'') s4 (length (ttl @ '' (#'')) [ttl, num] = Some r"
    by blast
  from b4 have "r = [ttl, num]" by (simp add: bt_Star_last)
  with m1 m2 m3 m4 n3 c3 c1 show ?thesis
    by (intro exI[of _ ttl] exI[of _ num] exI[of _ s4]) (simp add: any_iff)
qed

lemma squash_template_match:
  assumes msg: "msg = t @ '' (#'' @ ds @ '')'' @ trail"
    and ds: "ds \<noteq> []" "\<forall>c\<in>set ds. in_class Digit09 c"
    and t: "CHR 0x0A \<notin> set t"
  shows "\<exists>ttl num. re_match SQUASH_PR_RE msg = Some [ttl, num] \<and> length t \<le> length ttl"
proof -
  let ?K2 = "GClose # lits '')'' @ [Star AnyButNewline]"
  let ?K1 = "GClose # lits '' (#'' @ GOpen # Plus Digit09 # ?K2"
  have p: "bt False (Plus Digit09 # ?K2) (t @ '' (#'') (ds @ '')'' @ trail) g [t]
          = Some [t, drop g ((t @ '' (#'') @ ds)]" for g
  proof (rule bt_Plus_greedy)
    show "ds \<noteq> []" by (rule ds(1))
    show "\<forall>c\<in>set ds. in_class Digit09 c" by (rule ds(2))
    show "'')'' @ trail = [] \<or> \<not> in_class Digit09 (hd ('')'' @ trail))"
      by (simp add: not_digit_paren)
    show "bt False ?K2 ((t @ '' (#'') @ ds) ('')'' @ trail) g [t] = Some [t, drop g ((t @ '' (#'') @ ds)]"
      by (simp add: lits_def bt_Star_last)
  qed
  have k: "bt False ?K1 ([] @ t) ('' (#'' @ ds @ '')'' @ trail) 0 [] = Some [t, ds]"
    using p[of "length (t @ '' (#'')"] by (simp add: lits_def)
  have "\<forall>c\<in>set t. in_class AnyButNewline c" using t by (simp add: any_iff)
  from bt_Star_longest[OF this k] obtain ys s' r where
    h: "bt False (Star AnyButNewline # ?K1) [] (t @ '' (#'' @ ds @ '')'' @ trail) 0 [] = Some r"
       "length t \<le> length ys" "bt False ?K1 ([] @ ys) s' 0 [] = Some r"
    by blast
  from h(1) have m: "re_match SQUASH_PR_RE msg = Some r"
    by (simp add: re_match_def SQUASH_PR_RE_def msg)
  from squash_match_shape[OF m] obtain ttl num where r: "r = [ttl, num]" by blast
  from h(3) have "bt False (lits '' (#'' @ GOpen # Plus Digit09 # ?K2) ys s' 0 [ys] = Some r"
    by simp
  from bt_gs_prefix[OF this] have "\<exists>q. r = ys # q" by simp
  with r h(2) m show ?thesis by auto
qed

section \<open>The commit classifier\<close>

lemma is_pr_eq:
  "is_pr msg = (case re_match MERGE_PR_RE msg of Some m \<Rightarrow> Some m | None \<Rightarrow> re_match SQUASH_PR_RE msg)"
  by (simp add: is_pr_def merge_re_anchored squash_re_anchored split: option.splits)

lemma extract_pr_merge:
  "re_match MERGE_PR_RE msg = Some [n, t] \<Longrightarrow> extract_pr msg = Inr \<lparr>number = n, title = JStr t\<rparr>"
  by (simp add: extract_pr_def)

lemma extract_pr_squash:
  "re_match MERGE_PR_RE msg = None \<Longrightarrow> re_match SQUASH_PR_RE msg = Some [t, n] \<Longrightarrow>
   extract_pr msg = Inr \<lparr>number = n, title = JStr t\<rparr>"
  by (simp add: extract_pr_def)

lemma extract_pr_neither:
  "re_match MERGE_PR_RE msg = None \<Longrightarrow> re_match SQUASH_PR_RE msg = None \<Longrightarrow>
   extract_pr msg = Inl (PyException (''Commit isn't a PR merge, '' @ msg))"
  by (simp add: extract_pr_def)

lemma extract_pr_iff_is_pr: "(\<exists>p. extract_pr msg = Inr p) \<longleftrightarrow> is_pr msg \<noteq> None"
proof (cases "re_match MERGE_PR_RE msg")
  case None
  note m = None
  show ?thesis
  proof (cases "re_match SQUASH_PR_RE msg")
    case None
    with m show ?thesis by (simp add: is_pr_eq extract_pr_neither)
  next
    case (Some r)
    from squash_re_groups[OF Some] obtain t n where "r = [t, n]" by blast
    with m Some show ?thesis by (simp add: is_pr_eq extract_pr_squash)
  qed
next
  case (Some r)
  from merge_re_groups[OF Some] obtain n t where "r = [n, t]" by blast
  with Some show ?thesis by (simp add: is_pr_eq extract_pr_merge)
qed

text \<open>
  Claim C6. A message made of the line \<^verbatim>\<open>Merge pull request #<number> from <anything>\<close>,
  an empty line and a title line matches the merge-commit pattern; \<^verbatim>\<open>is_pr\<close> is true on
  it and \<^verbatim>\<open>extract_pr\<close> returns the number (group 1) and the title (group 2) exactly.
  Nothing is assumed about the squash pattern: the merge-commit pattern is tried first,
  so a message that matches both gives the number and title of the merge-commit pattern.
\<close>

theorem merge_template_extract:
  assumes "msg = ''Merge pull request #'' @ ds @ '' from '' @ branch @ [CHR 0x0A, CHR 0x0A] @ t @ tail"
    and "ds \<noteq> []" and "\<forall>c\<in>set ds. in_class Digit09 c"
    and "CHR 0x0A \<notin> set branch"
    and "CHR 0x0A \<notin> set t" and "tail = [] \<or> hd tail = CHR 0x0A"
  shows "re_match MERGE_PR_RE msg = Some [ds, t] \<and> is_pr msg = Some [ds, t] \<and>
         extract_pr msg = Inr \<lparr>number = ds, title = JStr t\<rparr>"
proof -
  from assms have m: "re_match MERGE_PR_RE msg = Some [ds, t]"
    by (rule merge_template_match)
  then show ?thesis by (simp add: is_pr_eq extract_pr_merge)
qed

text \<open>
  The theorem at a message that matches both patterns: the squash pattern would give
  number 7, and the result is number 5 with the title line.
\<close>

theorem merge_template_extract_witness:
  "re_match SQUASH_PR_RE ''Merge pull request #5 from a/b (#7)\<newline>\<newline>Title'' 
     = Some [''Merge pull request #5 from a/b'', ''7''] \<and>
   re_match MERGE_PR_RE ''Merge pull request #5 from a/b (#7)\<newline>\<newline>Title'' = Some [''5'', ''Title''] \<and>
   is_pr ''Merge pull request #5 from a/b (#7)\<newline>\<newline>Title'' = Some [''5'', ''Title''] \<and>
   extract_pr ''Merge pull request #5 from a/b (#7)\<newline>\<newline>Title'' = Inr \<lparr>number = ''5'', title = JStr ''Title''\<rparr>"
proof -
  have sq: "re_match SQUASH_PR_RE ''Merge pull request #5 from a/b (#7)\<newline>\<newline>Title'' 
     = Some [''Merge pull request #5 from a/b'', ''7'']"
    by (simp add: re_match_def SQUASH_PR_RE_def lits_def in_class.simps)
  have d: "\<forall>c\<in>set ''5''. in_class Digit09 c" by (simp add: in_class.simps)
  show ?thesis
    using sq merge_template_extract[of "''Merge pull request #5 from a/b (#7)\<newline>\<newline>Title''" "''5''" "''a/b (#7)''" "''Title''" "[]", OF _ _ d]
    by simp
qed

text \<open>
  Claim C7, amended. For a message that does not match the merge-commit pattern and whose
  first line contains \<^verbatim>\<open> (#<number>)\<close>, \<^verbatim>\<open>extract_pr\<close> returns the two groups of the
  squash pattern: the number, and as title the text before \<^verbatim>\<open> (#<number>)\<close>; everything
  after the closing parenthesis is left out. The quantifier of the title is greedy, so
  the occurrence used is the last one on the first line.
\<close>

theorem squash_template_extract:
  assumes "re_match MERGE_PR_RE msg = None"
    and "msg = t @ '' (#'' @ ds @ '')'' @ trail"
    and "ds \<noteq> []" and "\<forall>c\<in>set ds. in_class Digit09 c" and "CHR 0x0A \<notin> set t"
  shows "\<exists>ttl num rest. re_match SQUASH_PR_RE msg = Some [ttl, num] \<and>
           extract_pr msg = Inr \<lparr>number = num, title = JStr ttl\<rparr> \<and>
           msg = ttl @ '' (#'' @ num @ '')'' @ rest \<and>
           num \<noteq> [] \<and> (\<forall>c\<in>set num. in_class Digit09 c) \<and>
           CHR 0x0A \<notin> set ttl \<and> length t \<le> length ttl"
proof -
  from squash_template_match[OF assms(2-5)] obtain ttl num where
    m: "re_match SQUASH_PR_RE msg = Some [ttl, num]" and l: "length t \<le> length ttl" by blast
  from squash_match_shape[OF m] obtain rest where
    "msg = ttl @ '' (#'' @ num @ '')'' @ rest" "num \<noteq> []" "\<forall>c\<in>set num. in_class Digit09 c"
    "CHR 0x0A \<notin> set ttl" by auto
  with m l extract_pr_squash[OF assms(1) m] show ?thesis by blast
qed

text \<open>The theorem at the squash message of the test suite.\<close>

theorem squash_template_extract_witness:
  "extract_pr ''My Title (#1234)\<newline>\<newline>My description'' = Inr \<lparr>number = ''1234'', title = JStr ''My Title''\<rparr>"
proof -
  let ?m = "''My Title (#1234)\<newline>\<newline>My description''"
  have a: "re_match MERGE_PR_RE ?m = None"
    by (simp add: re_match_def MERGE_PR_RE_def lits_def)
  have d: "\<forall>c\<in>set ''1234''. in_class Digit09 c" by (simp add: in_class.simps)
  have sq: "re_match SQUASH_PR_RE ?m = Some [''My Title'', ''1234'']"
    by (simp add: re_match_def SQUASH_PR_RE_def lits_def in_class.simps)
  from squash_template_extract[OF a, of "''My Title''" "''1234''" "''\<newline>\<newline>My description''", OF _ _ d]
  obtain ttl num where "re_match SQUASH_PR_RE ?m = Some [ttl, num]"
    "extract_pr ?m = Inr \<lparr>number = num, title = JStr ttl\<rparr>" by auto
  with sq show ?thesis by simp
qed

text \<open>
  As the claim is written, for every message that matches the squash pattern, it fails on a
  message that matches the merge-commit pattern as well: the squash groups are not what
  \<^verbatim>\<open>extract_pr\<close> returns there.
\<close>

theorem squash_template_counterexample:
  "re_match SQUASH_PR_RE ''Merge pull request #5 from a/b (#7)\<newline>\<newline>Title''
     = Some [''Merge pull request #5 from a/b'', ''7''] \<and>
   extract_pr ''Merge pull request #5 from a/b (#7)\<newline>\<newline>Title''
     \<noteq> Inr \<lparr>number = ''7'', title = JStr ''Merge pull request #5 from a/b''\<rparr>"
  by (simp add: extract_pr_def re_match_def SQUASH_PR_RE_def MERGE_PR_RE_def lits_def in_class.simps)

text \<open>
  Claim C8. On a message that matches neither pattern \<^verbatim>\<open>is_pr\<close> is false and
  \<^verbatim>\<open>extract_pr\<close> raises; and on every message \<^verbatim>\<open>extract_pr\<close> returns a pull request
  exactly when \<^verbatim>\<open>is_pr\<close> is true, although the first searches and the second matches.
\<close>

theorem no_template_raises:
  "(re_match MERGE_PR_RE msg = None \<and> re_match SQUASH_PR_RE msg = None \<longrightarrow>
      is_pr msg = None \<and> extract_pr msg = Inl (PyException (''Commit isn't a PR merge, '' @ msg))) \<and>
   ((\<exists>p. extract_pr msg = Inr p) \<longleftrightarrow> is_pr msg \<noteq> None)"
  by (simp add: extract_pr_iff_is_pr is_pr_eq extract_pr_neither)

text \<open>The theorem at the message of the test suite that is no pull request.\<close>

theorem no_template_raises_witness:
  "re_match MERGE_PR_RE ''I made some changes!'' = None \<and>
   re_match SQUASH_PR_RE ''I made some changes!'' = None \<and>
   is_pr ''I made some changes!'' = None \<and>
   extract_pr ''I made some changes!'' = Inl (PyException ''Commit isn't a PR merge, I made some changes!'')"
proof -
  have a: "re_match MERGE_PR_RE ''I made some changes!'' = None"
    by (simp add: re_match_def MERGE_PR_RE_def lits_def)
  have b: "re_match SQUASH_PR_RE ''I made some changes!'' = None"
    by (simp add: re_match_def SQUASH_PR_RE_def lits_def in_class.simps)
  show ?thesis
    using a b no_template_raises[of "''I made some changes!''"] by simp
qed

section \<open>The resolver and the formatter\<close>

lemma first_by_number_set: "number ` set (first_by_number ps) = number ` set ps"
proof (induction ps rule: first_by_number.induct)
  case 1
  then show ?case by simp
next
  case (2 p ps)
  then show ?case by auto
qed

lemma first_by_number_subset: "set (first_by_number ps) \<subseteq> set ps"
  by (induction ps rule: first_by_number.induct) auto

lemma first_by_number_distinct: "distinct (map number (first_by_number ps))"
proof (induction ps rule: first_by_number.induct)
  case 1
  then show ?case by simp
next
  case (2 p ps)
  have "number p \<notin> number ` set (filter (\<lambda>q. number q \<noteq> number p) ps)" by auto
  then have "number p \<notin> number ` set (first_by_number (filter (\<lambda>q. number q \<noteq> number p) ps))"
    unfolding first_by_number_set .
  with 2 show ?case by simp
qed

lemma find_filter_other:
  "k \<noteq> k' \<Longrightarrow> find (\<lambda>q. number q = k) (filter (\<lambda>q. number q \<noteq> k') ps) = find (\<lambda>q. number q = k) ps"
  by (induction ps) auto

lemma first_by_number_find:
  "e \<in> set (first_by_number ps) \<Longrightarrow> find (\<lambda>q. number q = number e) ps = Some e"
proof (induction ps rule: first_by_number.induct)
  case 1
  then show ?case by simp
next
  case (2 p ps)
  show ?case
  proof (cases "e = p")
    case True
    then show ?thesis by simp
  next
    case False
    with "2.prems" have in': "e \<in> set (first_by_number (filter (\<lambda>q. number q \<noteq> number p) ps))" by simp
    with first_by_number_subset have "e \<in> set (filter (\<lambda>q. number q \<noteq> number p) ps)" by blast
    then have ne: "number e \<noteq> number p" by simp
    from "2.IH"[OF in'] have "find (\<lambda>q. number q = number e) (filter (\<lambda>q. number q \<noteq> number p) ps) = Some e" .
    with ne show ?thesis by (simp add: find_filter_other)
  qed
qed

lemma is_pr_extract: "is_pr msg \<noteq> None \<Longrightarrow> \<exists>p. extract_pr msg = Inr p"
  by (simp add: extract_pr_iff_is_pr)

lemma add_pr_None: "add_pr None st = st"
  by (simp add: add_pr_def)

lemma add_pr_inv: "walk_inv st \<Longrightarrow> walk_inv (add_pr found st)"
  by (cases found) (auto simp: add_pr_def walk_inv_def)

lemma filter_insert:
  "filter (\<lambda>q. number q \<notin> insert k S) ps = filter (\<lambda>q. number q \<noteq> k) (filter (\<lambda>q. number q \<notin> S) ps)"
  by (induction ps) auto

lemma add_pr_Some_prs:
  "prs (add_pr (Some p) st) @ first_by_number (filter (\<lambda>q. number q \<notin> processed_pr_numbers (add_pr (Some p) st)) ps)
   = prs st @ first_by_number (filter (\<lambda>q. number q \<notin> processed_pr_numbers st) (p # ps))"
proof (cases "number p \<in> processed_pr_numbers st")
  case True
  then show ?thesis by (simp add: add_pr_def)
next
  case False
  have "prs (add_pr (Some p) st) @ first_by_number (filter (\<lambda>q. number q \<notin> processed_pr_numbers (add_pr (Some p) st)) ps)
      = (prs st @ [p]) @ first_by_number (filter (\<lambda>q. number q \<notin> insert (number p) (processed_pr_numbers st)) ps)"
    using False by (simp add: add_pr_def)
  also have "\<dots> = prs st @ p # first_by_number
                 (filter (\<lambda>q. number q \<noteq> number p) (filter (\<lambda>q. number q \<notin> processed_pr_numbers st) ps))"
    by (simp only: filter_insert append_assoc append_Cons append_Nil)
  also have "\<dots> = prs st @ first_by_number (filter (\<lambda>q. number q \<notin> processed_pr_numbers st) (p # ps))"
    using False by (simp del: filter_filter)
  finally show ?thesis .
qed

lemma walk_result:
  "walk_inv st \<Longrightarrow>
   (\<exists>e. walk_error rq cfg owner repo cs w = Some e \<and>
        walk rq cfg owner repo ign cs st w = (Inl e, after_walk rq cfg owner repo ign cs w)) \<or>
   (walk_error rq cfg owner repo cs w = None \<and>
    (\<exists>st'. walk rq cfg owner repo ign cs st w = (Inr st', after_walk rq cfg owner repo ign cs w) \<and>
          walk_inv st' \<and>
          prs st' = prs st @ first_by_number
                      (filter (\<lambda>q. number q \<notin> processed_pr_numbers st)
                         (candidates rq cfg owner repo ign cs w))))"
proof (induction cs arbitrary: st w)
  case Nil
  then show ?case by simp
next
  case (Cons c cs)
  show ?case
  proof (cases "is_pr (message c) \<noteq> None")
    case True
    note ispr = True
    have a_eq: "after_walk rq cfg owner repo ign (c # cs) w = after_walk rq cfg owner repo ign cs w"
      using ispr by simp
    have e_eq: "walk_error rq cfg owner repo (c # cs) w = walk_error rq cfg owner repo cs w"
      using ispr by simp
    show ?thesis
    proof (cases "ign \<and> is_release_merge (message c) \<noteq> None")
      case True
      have w_eq: "walk rq cfg owner repo ign (c # cs) st w = walk rq cfg owner repo ign cs st w"
        using ispr True by simp
      have c_eq: "candidates rq cfg owner repo ign (c # cs) w = candidates rq cfg owner repo ign cs w"
        using ispr True by simp
      show ?thesis unfolding w_eq c_eq a_eq e_eq by (rule Cons.IH[OF Cons.prems])
    next
      case False
      from is_pr_extract[OF ispr] obtain p where p: "extract_pr (message c) = Inr p" by blast
      have w_eq: "walk rq cfg owner repo ign (c # cs) st w
                  = walk rq cfg owner repo ign cs (add_pr (Some p) st) w"
        using ispr False p by auto
      have c_eq: "candidates rq cfg owner repo ign (c # cs) w = p # candidates rq cfg owner repo ign cs w"
        using ispr False p by auto
      from Cons.IH[OF add_pr_inv[OF Cons.prems, of "Some p"], of w]
      show ?thesis unfolding w_eq c_eq a_eq e_eq add_pr_Some_prs .
    qed
  next
    case False
    obtain r w' where g: "get_pr_for_commit rq cfg owner repo (sha c) w = (r, w')"
      by (cases "get_pr_for_commit rq cfg owner repo (sha c) w")
    show ?thesis
    proof (cases r)
      case (Inl e)
      with False g show ?thesis by simp
    next
      case (Inr found)
      have a_eq: "after_walk rq cfg owner repo ign (c # cs) w = after_walk rq cfg owner repo ign cs w'"
        using False g Inr by simp
      have e_eq: "walk_error rq cfg owner repo (c # cs) w = walk_error rq cfg owner repo cs w'"
        using False g Inr by simp
      have w_eq: "walk rq cfg owner repo ign (c # cs) st w
                  = walk rq cfg owner repo ign cs (add_pr found st) w'"
        using False g Inr by simp
      note ih = Cons.IH[OF add_pr_inv[OF Cons.prems, of found], of w']
      show ?thesis
      proof (cases found)
        case None
        have c_eq: "candidates rq cfg owner repo ign (c # cs) w = candidates rq cfg owner repo ign cs w'"
          using False g Inr None by simp
        from ih show ?thesis unfolding w_eq c_eq a_eq e_eq None add_pr_None .
      next
        case (Some p)
        have c_eq: "candidates rq cfg owner repo ign (c # cs) w = p # candidates rq cfg owner repo ign cs w'"
          using False g Inr Some by simp
        from ih show ?thesis unfolding w_eq c_eq a_eq e_eq Some add_pr_Some_prs .
      qed
    qed
  qed
qed

lemma walk_from_empty:
  "(\<exists>e. walk_error rq cfg owner repo cs w = Some e \<and>
        walk rq cfg owner repo ign cs \<lparr>prs = [], processed_pr_numbers = {}\<rparr> w
          = (Inl e, after_walk rq cfg owner repo ign cs w)) \<or>
   (walk_error rq cfg owner repo cs w = None \<and>
    (\<exists>st'. walk rq cfg owner repo ign cs \<lparr>prs = [], processed_pr_numbers = {}\<rparr> w
            = (Inr st', after_walk rq cfg owner repo ign cs w) \<and>
          prs st' = first_by_number (candidates rq cfg owner repo ign cs w)))"
  using walk_result[of "\<lparr>prs = [], processed_pr_numbers = {}\<rparr>" rq cfg owner repo cs w ign]
  by (auto simp: walk_inv_def)

lemma fetch_details_map:
  "fetch_details rq cfg owner repo ps w = (Inr es, w') \<Longrightarrow> map pr es = ps"
  by (induction ps arbitrary: w es w') (auto split: prod.splits sum.splits)

text \<open>\<^verbatim>\<open>fetch_changes\<close> in terms of the deduplicated walk.\<close>

lemma fetch_changes_eq:
  "fetch_changes rq cfg owner repo branch ign cs w =
     (case walk_error rq cfg owner repo cs w of
        Some e \<Rightarrow> (Inl e, after_walk rq cfg owner repo ign cs w)
      | None \<Rightarrow>
         (case fetch_details rq cfg owner repo (first_by_number (candidates rq cfg owner repo ign cs w))
                 (after_walk rq cfg owner repo ign cs w) of
            (Inl e, w2) \<Rightarrow> (Inl e, w2)
          | (Inr es, w2) \<Rightarrow>
              if es = [] \<and> cs \<noteq> []
              then (Inl (PyException (''Lots of commits and no PRs on branch '' @ py_str_opt branch)), w2)
              else (Inr (rev es), w2)))"
  using walk_from_empty[of rq cfg owner repo cs w ign]
  by (auto simp: fetch_changes_def split: prod.splits sum.splits)

lemma example_run:
  "fetch_changes example_requests example_config ''owner'' ''repo'' (Some ''main'') False example_walk 0
   = (Inr example_result, 4)"
  by code_simp

lemma fetch_changes_Inr:
  assumes "fst (fetch_changes rq cfg owner repo branch ign cs w) = Inr res"
  shows "fst (fetch_details rq cfg owner repo (first_by_number (candidates rq cfg owner repo ign cs w))
                (after_walk rq cfg owner repo ign cs w)) = Inr (rev res)"
    and "map pr (rev res) = first_by_number (candidates rq cfg owner repo ign cs w)"
    and "walk_error rq cfg owner repo cs w = None"
proof -
  show we: "walk_error rq cfg owner repo cs w = None"
    using assms by (cases "walk_error rq cfg owner repo cs w") (simp_all add: fetch_changes_eq)
  obtain r w2 where fd: "fetch_details rq cfg owner repo (first_by_number (candidates rq cfg owner repo ign cs w))
                (after_walk rq cfg owner repo ign cs w) = (r, w2)"
    by (cases "fetch_details rq cfg owner repo (first_by_number (candidates rq cfg owner repo ign cs w))
                (after_walk rq cfg owner repo ign cs w)")
  with assms we obtain es where es: "r = Inr es" "res = rev es"
    by (cases r) (auto simp: fetch_changes_eq split: if_splits)
  with fd show "fst (fetch_details rq cfg owner repo (first_by_number (candidates rq cfg owner repo ign cs w))
                (after_walk rq cfg owner repo ign cs w)) = Inr (rev res)" by simp
  from fd es fetch_details_map[of rq cfg owner repo _ _ es w2]
  show "map pr (rev res) = first_by_number (candidates rq cfg owner repo ign cs w)" by simp
qed

text \<open>
  Claim C1. In the list \<^verbatim>\<open>fetch_changes\<close> returns no number occurs twice; every entry is
  the first pull request of the walk with its number, so a later pull request with a
  number already seen contributes nothing; and every number the walk resolves is there.
\<close>

theorem fetch_changes_unique:
  assumes "fst (fetch_changes rq cfg owner repo branch ign cs w) = Inr res"
  shows "distinct (map (\<lambda>e. number (pr e)) res) \<and>
         (\<forall>e\<in>set res. find (\<lambda>q. number q = number (pr e)) (candidates rq cfg owner repo ign cs w)
                         = Some (pr e)) \<and>
         (\<lambda>e. number (pr e)) ` set res = number ` set (candidates rq cfg owner repo ign cs w)"
proof -
  let ?cands = "candidates rq cfg owner repo ign cs w"
  from fetch_changes_Inr(2)[OF assms] have m: "map pr (rev res) = first_by_number ?cands" .
  have "map number (map pr (rev res)) = map number (first_by_number ?cands)" by (simp only: m)
  then have "distinct (map number (map pr (rev res)))" by (simp only: first_by_number_distinct)
  then have d: "distinct (map (\<lambda>e. number (pr e)) res)"
    by (simp add: rev_map[symmetric] comp_def)
  have s: "pr ` set res = set (first_by_number ?cands)"
    using m by (metis set_map set_rev)
  have f: "\<forall>e\<in>set res. find (\<lambda>q. number q = number (pr e)) ?cands = Some (pr e)"
  proof
    fix e assume "e \<in> set res"
    with s have "pr e \<in> set (first_by_number ?cands)" by blast
    then show "find (\<lambda>q. number q = number (pr e)) ?cands = Some (pr e)"
      by (rule first_by_number_find)
  qed
  have "(\<lambda>e. number (pr e)) ` set res = number ` (pr ` set res)" by (simp add: image_image)
  also have "\<dots> = number ` set ?cands" by (simp only: s first_by_number_set)
  finally show ?thesis using d f by blast
qed

text \<open>
  The theorem at the example walk: number 100 is resolved from two commits under two
  titles, and the entry kept has the title of the first.
\<close>

theorem fetch_changes_unique_witness:
  "fst (fetch_changes example_requests example_config ''owner'' ''repo'' (Some ''main'') False example_walk 0)
     = Inr example_result \<and>
   map (\<lambda>e. number (pr e)) example_result = [''101'', ''100''] \<and>
   distinct (map (\<lambda>e. number (pr e)) example_result) \<and>
   find (\<lambda>q. number q = ''100'')
        (candidates example_requests example_config ''owner'' ''repo'' False example_walk 0)
     = Some \<lparr>number = ''100'', title = JStr ''Fix authentication bug''\<rparr>"
proof -
  have h: "fst (fetch_changes example_requests example_config ''owner'' ''repo'' (Some ''main'') False example_walk 0)
     = Inr example_result"
    by (simp add: example_run)
  have e: "\<lparr>pr = \<lparr>number = ''100'', title = JStr ''Fix authentication bug''\<rparr>,
       details = \<lparr>body = Some ''Fixes authentication issue'', labels = Some [''bug'']\<rparr>\<rparr> \<in> set example_result"
    by (simp add: example_result_def)
  from fetch_changes_unique[OF h] e h show ?thesis
    by (auto simp: example_result_def)
qed

text \<open>
  Claim C3. The list \<^verbatim>\<open>fetch_changes\<close> returns is the reversal of the deduplicated walk:
  entry \<open>i\<close> is the pull request at position \<open>n - 1 - i\<close> of the surviving ones; the details
  are fetched for the surviving pull requests in walk order, after the walk, and the list
  of pairs is reversed last.
\<close>

theorem fetch_changes_reversed:
  assumes "fst (fetch_changes rq cfg owner repo branch ign cs w) = Inr res"
  shows "map pr res = rev (first_by_number (candidates rq cfg owner repo ign cs w)) \<and>
         length res = length (first_by_number (candidates rq cfg owner repo ign cs w)) \<and>
         (\<forall>i<length res. pr (res ! i)
              = first_by_number (candidates rq cfg owner repo ign cs w) ! (length res - 1 - i)) \<and>
         fst (fetch_details rq cfg owner repo (first_by_number (candidates rq cfg owner repo ign cs w))
                (after_walk rq cfg owner repo ign cs w)) = Inr (rev res)"
proof -
  let ?sv = "first_by_number (candidates rq cfg owner repo ign cs w)"
  from fetch_changes_Inr(2)[OF assms] have m: "map pr (rev res) = ?sv" .
  then have r: "map pr res = rev ?sv" by (simp add: rev_map[symmetric] rev_swap)
  then have l: "length res = length ?sv" by (metis length_map length_rev)
  have "\<forall>i<length res. pr (res ! i) = ?sv ! (length res - 1 - i)"
  proof (intro allI impI)
    fix i assume i: "i < length res"
    then have "pr (res ! i) = map pr res ! i" by simp
    also have "\<dots> = rev ?sv ! i" by (simp only: r)
    also have "\<dots> = ?sv ! (length ?sv - Suc i)" using i l by (simp add: rev_nth)
    finally show "pr (res ! i) = ?sv ! (length res - 1 - i)" using l by simp
  qed
  with r l fetch_changes_Inr(1)[OF assms] show ?thesis by blast
qed

text \<open>The theorem at the example walk: two survivors, returned last first.\<close>

theorem fetch_changes_reversed_witness:
  "fst (fetch_changes example_requests example_config ''owner'' ''repo'' (Some ''main'') False example_walk 0)
     = Inr example_result \<and>
   first_by_number (candidates example_requests example_config ''owner'' ''repo'' False example_walk 0)
     = [\<lparr>number = ''100'', title = JStr ''Fix authentication bug''\<rparr>,
        \<lparr>number = ''101'', title = JStr ''Documentation updates''\<rparr>] \<and>
   map pr example_result
     = [\<lparr>number = ''101'', title = JStr ''Documentation updates''\<rparr>,
        \<lparr>number = ''100'', title = JStr ''Fix authentication bug''\<rparr>]"
proof -
  have h: "fst (fetch_changes example_requests example_config ''owner'' ''repo'' (Some ''main'') False example_walk 0)
     = Inr example_result"
    by (simp add: example_run)
  have m: "map pr example_result
     = [\<lparr>number = ''101'', title = JStr ''Documentation updates''\<rparr>,
        \<lparr>number = ''100'', title = JStr ''Fix authentication bug''\<rparr>]"
    by (simp add: example_result_def)
  from fetch_changes_reversed[OF h] have
    "map pr example_result
       = rev (first_by_number (candidates example_requests example_config ''owner'' ''repo'' False example_walk 0))"
    by blast
  then have "first_by_number (candidates example_requests example_config ''owner'' ''repo'' False example_walk 0)
       = rev (map pr example_result)" by (simp add: rev_swap)
  with h m show ?thesis by simp
qed

lemma candidates_all_none:
  assumes "\<forall>c\<in>set cs. is_pr (message c) = None"
    and "\<forall>c\<in>set cs. \<forall>w'. fst (get_pr_for_commit rq cfg owner repo (sha c) w') = Inr None"
  shows "walk_error rq cfg owner repo cs w = None \<and> candidates rq cfg owner repo ign cs w = []"
  using assms
proof (induction cs arbitrary: w)
  case Nil
  then show ?case by simp
next
  case (Cons c cs)
  obtain r w' where g: "get_pr_for_commit rq cfg owner repo (sha c) w = (r, w')"
    by (cases "get_pr_for_commit rq cfg owner repo (sha c) w")
  with Cons.prems(2) have "r = Inr None" by (metis fst_conv list.set_intros(1))
  with g Cons show ?case by simp
qed

text \<open>
  Claim C5. When the commit list is not empty, the walk ends without an exception and no
  commit yields a pull request, \<^verbatim>\<open>fetch_changes\<close> raises its consistency error instead of
  returning the empty list; that is the case in particular when no message matches a
  pattern and every fallback lookup returns none. Conversely the empty list is returned
  only for the empty commit list.
\<close>

theorem fetch_changes_consistency:
  "(cs \<noteq> [] \<and> walk_error rq cfg owner repo cs w = None \<and>
    candidates rq cfg owner repo ign cs w = [] \<longrightarrow>
      fst (fetch_changes rq cfg owner repo branch ign cs w)
        = Inl (PyException (''Lots of commits and no PRs on branch '' @ py_str_opt branch))) \<and>
   ((\<forall>c\<in>set cs. is_pr (message c) = None) \<and>
    (\<forall>c\<in>set cs. \<forall>w'. fst (get_pr_for_commit rq cfg owner repo (sha c) w') = Inr None) \<longrightarrow>
      walk_error rq cfg owner repo cs w = None \<and> candidates rq cfg owner repo ign cs w = [] \<and>
      (cs \<noteq> [] \<longrightarrow>
         fst (fetch_changes rq cfg owner repo branch ign cs w)
           = Inl (PyException (''Lots of commits and no PRs on branch '' @ py_str_opt branch)))) \<and>
   (fst (fetch_changes rq cfg owner repo branch ign cs w) = Inr [] \<longrightarrow> cs = [])"
proof (intro conjI impI)
  assume "cs \<noteq> [] \<and> walk_error rq cfg owner repo cs w = None \<and>
          candidates rq cfg owner repo ign cs w = []"
  then show "fst (fetch_changes rq cfg owner repo branch ign cs w)
        = Inl (PyException (''Lots of commits and no PRs on branch '' @ py_str_opt branch))"
    by (simp add: fetch_changes_eq)
next
  assume a: "(\<forall>c\<in>set cs. is_pr (message c) = None) \<and>
    (\<forall>c\<in>set cs. \<forall>w'. fst (get_pr_for_commit rq cfg owner repo (sha c) w') = Inr None)"
  then have "walk_error rq cfg owner repo cs w = None \<and> candidates rq cfg owner repo ign cs w = []"
    by (intro candidates_all_none) blast+
  then show "walk_error rq cfg owner repo cs w = None"
    and "candidates rq cfg owner repo ign cs w = []"
    and "cs \<noteq> [] \<Longrightarrow> fst (fetch_changes rq cfg owner repo branch ign cs w)
           = Inl (PyException (''Lots of commits and no PRs on branch '' @ py_str_opt branch))"
    by (simp_all add: fetch_changes_eq)
next
  assume "fst (fetch_changes rq cfg owner repo branch ign cs w) = Inr []"
  then show "cs = []"
    by (auto simp: fetch_changes_eq split: option.splits prod.splits sum.splits if_splits)
qed

text \<open>
  The theorem at a walk of two commits without a pattern, the lookup answering 404 for
  the first and the empty list for the second, whatever the remote state; and at the
  empty walk, which returns the empty list.
\<close>

theorem fetch_changes_consistency_witness:
  "orphan_walk \<noteq> [] \<and>
   is_pr ''I made some changes!'' = None \<and>
   is_pr ''Merge pull request from some/branch\<newline>\<newline>My Title'' = None \<and>
   walk_error example_requests example_config ''owner'' ''repo'' orphan_walk 0 = None \<and>
   candidates example_requests example_config ''owner'' ''repo'' False orphan_walk 0 = [] \<and>
   fst (fetch_changes example_requests example_config ''owner'' ''repo'' (Some ''main'') False orphan_walk 0)
     = Inl (PyException ''Lots of commits and no PRs on branch main'') \<and>
   fst (fetch_changes example_requests example_config ''owner'' ''repo'' (Some ''main'') False [] 0) = Inr []"
proof -
  have a: "orphan_walk \<noteq> []" by (simp add: orphan_walk_def)
  have c1: "is_pr ''I made some changes!'' = None" by code_simp
  have c2: "is_pr ''Merge pull request from some/branch\<newline>\<newline>My Title'' = None" by code_simp
  have m: "\<forall>c\<in>set orphan_walk. is_pr (message c) = None"
    using c1 c2 by (simp add: orphan_walk_def)
  have l: "\<forall>c\<in>set orphan_walk. \<forall>w'.
             fst (get_pr_for_commit example_requests example_config ''owner'' ''repo'' (sha c) w') = Inr None"
    by (simp add: orphan_walk_def get_pr_for_commit_def example_requests_def example_config_def)
  have e: "fst (fetch_changes example_requests example_config ''owner'' ''repo'' (Some ''main'') False [] 0) = Inr []"
    by (simp add: fetch_changes_def)
  from fetch_changes_consistency[of orphan_walk example_requests example_config "''owner''" "''repo''" 0 False "Some ''main''"]
    a m l
  have "walk_error example_requests example_config ''owner'' ''repo'' orphan_walk 0 = None \<and>
        candidates example_requests example_config ''owner'' ''repo'' False orphan_walk 0 = [] \<and>
        fst (fetch_changes example_requests example_config ''owner'' ''repo'' (Some ''main'') False orphan_walk 0)
          = Inl (PyException (''Lots of commits and no PRs on branch '' @ py_str_opt (Some ''main'')))"
    by blast
  with a c1 c2 e show ?thesis by (simp add: py_str_opt_def)
qed

lemma first_pull_Some:
  assumes "first_pull pulls = Some (n, t)"
  shows "truthy pulls \<and>
         (\<exists>p. getitem_0 pulls = Inr p \<and> getitem_key p ''number'' = Inr n \<and>
              getitem_key p ''title'' = Inr t)"
proof (cases pulls)
  case (JArr xs)
  show ?thesis
  proof (cases xs)
    case Nil
    with JArr assms show ?thesis by simp
  next
    case (Cons x rest)
    with JArr assms show ?thesis
      by (cases x) (auto split: option.splits)
  qed
qed (use assms in simp_all)

lemma first_pull_None:
  assumes "truthy pulls" and "first_pull pulls = None"
  shows "\<exists>e. getitem_0 pulls = Inl e \<or>
             (\<exists>p. getitem_0 pulls = Inr p \<and>
                  (getitem_key p ''number'' = Inl e \<or>
                   (\<exists>n. getitem_key p ''number'' = Inr n \<and> getitem_key p ''title'' = Inl e)))"
proof (cases pulls)
  case (JArr xs)
  show ?thesis
  proof (cases xs)
    case Nil
    with JArr assms show ?thesis by simp
  next
    case (Cons x rest)
    with JArr assms show ?thesis
      by (cases x) (auto split: option.splits)
  qed
next
  case (JStr s)
  with assms show ?thesis by (cases s) auto
qed (use assms in auto)

lemma get_pr_for_commit_value:
  assumes "get_commit_pulls rq
             (join ''/'' [api_url cfg, ''repos'', owner, repo, ''commits'', commit_sha, ''pulls''])
             (headers cfg) w = (resp, w')"
  shows "status_code resp \<noteq> 200 \<Longrightarrow> get_pr_for_commit rq cfg owner repo commit_sha w = (Inr None, w')"
    and "status_code resp = 200 \<Longrightarrow> json resp = None \<Longrightarrow>
           get_pr_for_commit rq cfg owner repo commit_sha w = (Inl PyValueError, w')"
    and "status_code resp = 200 \<Longrightarrow> json resp = Some pulls \<Longrightarrow> \<not> truthy pulls \<Longrightarrow>
           get_pr_for_commit rq cfg owner repo commit_sha w = (Inr None, w')"
    and "status_code resp = 200 \<Longrightarrow> json resp = Some pulls \<Longrightarrow> first_pull pulls = Some (n, t) \<Longrightarrow>
           get_pr_for_commit rq cfg owner repo commit_sha w
             = (Inr (Some \<lparr>number = py_str n, title = t\<rparr>), w')"
    and "status_code resp = 200 \<Longrightarrow> json resp = Some pulls \<Longrightarrow> truthy pulls \<Longrightarrow>
           first_pull pulls = None \<Longrightarrow>
           \<exists>e. get_pr_for_commit rq cfg owner repo commit_sha w = (Inl e, w')"
proof -
  show "status_code resp \<noteq> 200 \<Longrightarrow> get_pr_for_commit rq cfg owner repo commit_sha w = (Inr None, w')"
    using assms by (simp add: get_pr_for_commit_def)
  show "status_code resp = 200 \<Longrightarrow> json resp = None \<Longrightarrow>
           get_pr_for_commit rq cfg owner repo commit_sha w = (Inl PyValueError, w')"
    using assms by (simp add: get_pr_for_commit_def)
  show "status_code resp = 200 \<Longrightarrow> json resp = Some pulls \<Longrightarrow> \<not> truthy pulls \<Longrightarrow>
           get_pr_for_commit rq cfg owner repo commit_sha w = (Inr None, w')"
    using assms by (simp add: get_pr_for_commit_def)
  show "status_code resp = 200 \<Longrightarrow> json resp = Some pulls \<Longrightarrow> first_pull pulls = Some (n, t) \<Longrightarrow>
           get_pr_for_commit rq cfg owner repo commit_sha w
             = (Inr (Some \<lparr>number = py_str n, title = t\<rparr>), w')"
    using assms first_pull_Some[of pulls n t] by (auto simp: get_pr_for_commit_def)
  show "status_code resp = 200 \<Longrightarrow> json resp = Some pulls \<Longrightarrow> truthy pulls \<Longrightarrow>
           first_pull pulls = None \<Longrightarrow>
           \<exists>e. get_pr_for_commit rq cfg owner repo commit_sha w = (Inl e, w')"
    using assms first_pull_None[of pulls] by (auto simp: get_pr_for_commit_def)
qed

text \<open>
  Claim C9, amended. \<^verbatim>\<open>get_pr_for_commit\<close> returns none on every status other than 200,
  the body not read, and on status 200 with a body that decodes to a false value, the
  empty list among them. On status 200 with a list whose first element is a dict with
  \<^verbatim>\<open>number\<close> and \<^verbatim>\<open>title\<close> it returns that first pull request, the number through
  \<^verbatim>\<open>str\<close>. It raises exactly on the other responses with status 200: a body that is not
  JSON, or a true value of another shape. When it returns none for a commit without a
  pattern, the walk goes on with the remaining commits, its list and its set unchanged;
  when it raises, the walk ends with that exception.
\<close>

theorem get_pr_for_commit_best_effort:
  assumes "get_commit_pulls rq
             (join ''/'' [api_url cfg, ''repos'', owner, repo, ''commits'', sha c, ''pulls''])
             (headers cfg) w = (resp, w')"
  shows "(status_code resp \<noteq> 200 \<longrightarrow>
            get_pr_for_commit rq cfg owner repo (sha c) w = (Inr None, w')) \<and>
         (status_code resp = 200 \<and> json resp = Some pulls \<and> \<not> truthy pulls \<longrightarrow>
            get_pr_for_commit rq cfg owner repo (sha c) w = (Inr None, w')) \<and>
         (status_code resp = 200 \<and> json resp = Some pulls \<and> first_pull pulls = Some (n, t) \<longrightarrow>
            get_pr_for_commit rq cfg owner repo (sha c) w
              = (Inr (Some \<lparr>number = py_str n, title = t\<rparr>), w')) \<and>
         ((\<exists>e. fst (get_pr_for_commit rq cfg owner repo (sha c) w) = Inl e) \<longleftrightarrow>
            status_code resp = 200 \<and>
            (json resp = None \<or> (\<exists>p. json resp = Some p \<and> truthy p \<and> first_pull p = None))) \<and>
         (is_pr (message c) = None \<and> fst (get_pr_for_commit rq cfg owner repo (sha c) w) = Inr None \<longrightarrow>
            walk rq cfg owner repo ign (c # cs) st w = walk rq cfg owner repo ign cs st w') \<and>
         (is_pr (message c) = None \<and> fst (get_pr_for_commit rq cfg owner repo (sha c) w) = Inl e \<longrightarrow>
            walk rq cfg owner repo ign (c # cs) st w = (Inl e, w'))"
proof -
  note v = get_pr_for_commit_value[OF assms]
  have s: "snd (get_pr_for_commit rq cfg owner repo (sha c) w) = w'"
    using assms by (simp add: get_pr_for_commit_def split: option.splits sum.splits)
  have raises: "(\<exists>e. fst (get_pr_for_commit rq cfg owner repo (sha c) w) = Inl e) \<longleftrightarrow>
            status_code resp = 200 \<and>
            (json resp = None \<or> (\<exists>p. json resp = Some p \<and> truthy p \<and> first_pull p = None))"
  proof (cases "status_code resp = 200")
    case False
    with v(1) show ?thesis by simp
  next
    case True
    note ok = True
    show ?thesis
    proof (cases "json resp")
      case None
      with ok v(2) show ?thesis by simp
    next
      case (Some p)
      note body = Some
      show ?thesis
      proof (cases "truthy p")
        case False
        with ok body v(3)[of p] show ?thesis by simp
      next
        case True
        show ?thesis
        proof (cases "first_pull p")
          case None
          with ok body True v(5)[of p] show ?thesis by auto
        next
          case (Some nt)
          obtain n' t' where "nt = (n', t')" by (cases nt)
          with ok body Some v(4)[of p n' t'] show ?thesis by simp
        qed
      qed
    qed
  qed
  have cont: "is_pr (message c) = None \<and> fst (get_pr_for_commit rq cfg owner repo (sha c) w) = Inr None \<longrightarrow>
            walk rq cfg owner repo ign (c # cs) st w = walk rq cfg owner repo ign cs st w'"
    using s by (cases "get_pr_for_commit rq cfg owner repo (sha c) w") (auto simp: add_pr_None)
  have stops: "is_pr (message c) = None \<and> fst (get_pr_for_commit rq cfg owner repo (sha c) w) = Inl e \<longrightarrow>
            walk rq cfg owner repo ign (c # cs) st w = (Inl e, w')"
    using s by (cases "get_pr_for_commit rq cfg owner repo (sha c) w") auto
  from v(1) v(3)[of pulls] v(4)[of pulls n t] raises cont stops show ?thesis by blast
qed

text \<open>
  The theorem at four lookups of the remote side of the examples: status 404; status 200
  with the empty list; status 200 with a list of one pull request; status 200 with a
  dict. The walk without pull requests goes on after the first, and the walk that meets
  the dict ends with \<^verbatim>\<open>KeyError\<close>.
\<close>

theorem get_pr_for_commit_best_effort_witness:
  "get_pr_for_commit example_requests example_config ''owner'' ''repo'' ''commit4'' 0 = (Inr None, 1) \<and>
   get_pr_for_commit example_requests example_config ''owner'' ''repo'' ''commit5'' 1 = (Inr None, 2) \<and>
   get_pr_for_commit example_requests example_config ''owner'' ''repo'' ''commit1'' 0
     = (Inr (Some \<lparr>number = ''100'', title = JStr ''Fix authentication bug''\<rparr>), 1) \<and>
   fst (get_pr_for_commit example_requests example_config ''owner'' ''repo'' ''commit6'' 1) = Inl PyKeyError \<and>
   walk example_requests example_config ''owner'' ''repo'' False orphan_walk
        \<lparr>prs = [], processed_pr_numbers = {}\<rparr> 0
     = walk example_requests example_config ''owner'' ''repo'' False (tl orphan_walk)
        \<lparr>prs = [], processed_pr_numbers = {}\<rparr> 1 \<and>
   fst (fetch_changes example_requests example_config ''owner'' ''repo'' (Some ''main'') False broken_walk 0)
     = Inl PyKeyError"
proof -
  let ?c4 = "\<lparr>sha = ''commit4'', message = ''I made some changes!''\<rparr>"
  let ?c5 = "\<lparr>sha = ''commit5'', message = ''Merge pull request from some/branch\<newline>\<newline>My Title''\<rparr>"
  let ?c1 = "\<lparr>sha = ''commit1'', message = ''Fix bug in authentication''\<rparr>"
  let ?c6 = "\<lparr>sha = ''commit6'', message = ''Add unit tests''\<rparr>"
  let ?st = "\<lparr>prs = [], processed_pr_numbers = {}\<rparr>"
  have r4: "get_commit_pulls example_requests
             (join ''/'' [api_url example_config, ''repos'', ''owner'', ''repo'', ''commits'', sha ?c4, ''pulls''])
             (headers example_config) 0
            = (\<lparr>status_code = 404, json = Some (JObj [(''message'', JStr ''Not Found'')])\<rparr>, 1)"
    by (simp add: example_requests_def example_config_def)
  have r5: "get_commit_pulls example_requests
             (join ''/'' [api_url example_config, ''repos'', ''owner'', ''repo'', ''commits'', sha ?c5, ''pulls''])
             (headers example_config) 1
            = (\<lparr>status_code = 200, json = Some (JArr [])\<rparr>, 2)"
    by (simp add: example_requests_def example_config_def)
  have r1: "get_commit_pulls example_requests
             (join ''/'' [api_url example_config, ''repos'', ''owner'', ''repo'', ''commits'', sha ?c1, ''pulls''])
             (headers example_config) 0
            = (\<lparr>status_code = 200,
                json = Some (JArr [JObj [(''number'', JInt 100),
                                         (''title'', JStr ''Fix authentication bug'')]])\<rparr>, 1)"
    by (simp add: example_requests_def example_config_def)
  have r6: "get_commit_pulls example_requests
             (join ''/'' [api_url example_config, ''repos'', ''owner'', ''repo'', ''commits'', sha ?c6, ''pulls''])
             (headers example_config) 1
            = (\<lparr>status_code = 200, json = Some (JObj [(''message'', JStr ''Server Error'')])\<rparr>, 2)"
    by (simp add: example_requests_def example_config_def)
  have n4: "is_pr (message ?c4) = None" by code_simp
  have f1: "first_pull (JArr [JObj [(''number'', JInt 100), (''title'', JStr ''Fix authentication bug'')]])
            = Some (JInt 100, JStr ''Fix authentication bug'')"
    by (simp add: dict_items_def)
  have s100: "py_str (JInt 100) = ''100''" by code_simp
  have o: "orphan_walk = ?c4 # tl orphan_walk" by (simp add: orphan_walk_def)
  have k6: "fst (get_pr_for_commit example_requests example_config ''owner'' ''repo'' ''commit6'' 1)
            = Inl PyKeyError"
    by code_simp
  have b: "fst (fetch_changes example_requests example_config ''owner'' ''repo'' (Some ''main'') False broken_walk 0)
     = Inl PyKeyError"
    by code_simp
  from get_pr_for_commit_best_effort[OF r4, where ign = False and cs = "tl orphan_walk" and st = ?st] n4
  have a4: "get_pr_for_commit example_requests example_config ''owner'' ''repo'' ''commit4'' 0 = (Inr None, 1)"
    and w4: "walk example_requests example_config ''owner'' ''repo'' False (?c4 # tl orphan_walk) ?st 0
             = walk example_requests example_config ''owner'' ''repo'' False (tl orphan_walk) ?st 1"
    by (simp_all del: walk.simps)
  from get_pr_for_commit_best_effort[OF r5, where pulls = "JArr []"]
  have a5: "get_pr_for_commit example_requests example_config ''owner'' ''repo'' ''commit5'' 1 = (Inr None, 2)"
    by simp
  from get_pr_for_commit_best_effort[OF r1,
         where pulls = "JArr [JObj [(''number'', JInt 100), (''title'', JStr ''Fix authentication bug'')]]"
           and n = "JInt 100" and t = "JStr ''Fix authentication bug''"] f1 s100
  have a1: "get_pr_for_commit example_requests example_config ''owner'' ''repo'' ''commit1'' 0
     = (Inr (Some \<lparr>number = ''100'', title = JStr ''Fix authentication bug''\<rparr>), 1)"
    by simp
  from a4 a5 a1 k6 w4 b o show ?thesis by simp
qed

text \<open>
  As the claim is written it fails twice. The answer 202, inside 2xx, with one pull
  request in the list gives none, not that pull request; and the answer 200 with a dict
  in place of the list raises \<^verbatim>\<open>KeyError\<close>.
\<close>

theorem get_pr_for_commit_counterexample:
  "fst (get_commit_pulls accepted_requests ''https://api.github.com/repos/owner/repo/commits/abc123/pulls'' [] 0)
     = \<lparr>status_code = 202,
        json = Some (JArr [JObj [(''number'', JInt 123), (''title'', JStr ''Add new feature'')]])\<rparr> \<and>
   fst (get_pr_for_commit accepted_requests example_config ''owner'' ''repo'' ''abc123'' 0) = Inr None \<and>
   fst (get_commit_pulls example_requests ''https://api.github.com/repos/owner/repo/commits/commit6/pulls'' [] 0)
     = \<lparr>status_code = 200, json = Some (JObj [(''message'', JStr ''Server Error'')])\<rparr> \<and>
   fst (get_pr_for_commit example_requests example_config ''owner'' ''repo'' ''commit6'' 0) = Inl PyKeyError"
  by (simp add: accepted_requests_def example_requests_def get_pr_for_commit_def example_config_def)

text \<open>
  Claim C10. On the empty commit list \<^verbatim>\<open>fetch_changes\<close> returns the empty list, no request
  is made and the consistency check does not fire; \<^verbatim>\<open>format_changes\<close> on the empty list
  returns the one line \<^verbatim>\<open>PATCH RELEASE\<close>.
\<close>

theorem empty_commit_list:
  "fetch_changes rq cfg owner repo branch ign [] w = (Inr [], w) \<and>
   format_changes cfg owner repo [] markdown = Inr [''PATCH RELEASE'']"
  by (simp add: fetch_changes_def format_changes_def format_loop_def CHANGELOG_LEVEL_MESSAGE_def)


lemma label_level_spec: "label_level l = spec_label_level l"
  by (simp add: label_level_def spec_label_level_def LABEL_LEVELS_def)

lemma spec_label_level_range: "1 \<le> spec_label_level l \<and> spec_label_level l \<le> 3"
  by (simp add: spec_label_level_def)

lemma fold_min_labels:
  "fold (\<lambda>label l. min l (f label)) ls (l0::int) = Min (insert l0 (f ` set ls))"
proof -
  have "fold (\<lambda>label l. min l (f label)) ls l0 = fold min (map f ls) l0"
    by (induction ls arbitrary: l0) (simp_all add: min.commute)
  also have "\<dots> = Min (set (l0 # map f ls))" by (simp only: Min.set_eq_fold)
  finally show ?thesis by simp
qed

lemma Min_insert_Min:
  fixes a :: int
  assumes "finite S" "finite T"
  shows "Min (insert (Min (insert a S)) T) = Min (insert a (S \<union> T))"
  by (metis Min.union Min_insert Min_singleton Un_insert_left assms(1,2)
    finite_insert insert_not_empty sup_bot_right)

lemma finite_entry_levels: "finite (entry_levels e)"
  by (simp add: entry_levels_def split: option.splits)

lemma format_step_level:
  "change_level (format_step cfg owner repo md e st) = Min (insert (change_level st) (entry_levels e))"
proof (cases "labels (details e)")
  case None
  then show ?thesis
    by (simp add: format_step_def Let_def labels_or_empty_def entry_levels_def min.commute)
next
  case (Some ls)
  show ?thesis
  proof (cases "ls = []")
    case True
    with Some show ?thesis
      by (simp add: format_step_def Let_def labels_or_empty_def entry_levels_def min.commute)
  next
    case False
    with Some show ?thesis
      by (simp add: format_step_def Let_def labels_or_empty_def entry_levels_def fold_min_labels
          label_level_spec)
  qed
qed

lemma format_step_lines:
  "length (lines (format_step cfg owner repo md e st)) = Suc (length (lines st))"
  by (simp add: format_step_def Let_def)

lemma fold_format_step:
  "change_level (fold (format_step cfg owner repo md) eprs st)
     = Min (insert (change_level st) (\<Union> (entry_levels ` set eprs))) \<and>
   length (lines (fold (format_step cfg owner repo md) eprs st)) = length (lines st) + length eprs"
proof (induction eprs arbitrary: st)
  case Nil
  then show ?case by simp
next
  case (Cons e eprs)
  have f: "finite (\<Union> (entry_levels ` set eprs))" by (simp add: finite_entry_levels)
  have "Min (insert (Min (insert (change_level st) (entry_levels e))) (\<Union> (entry_levels ` set eprs)))
        = Min (insert (change_level st) (entry_levels e \<union> \<Union> (entry_levels ` set eprs)))"
    by (rule Min_insert_Min[OF finite_entry_levels f])
  with Cons[of "format_step cfg owner repo md e st"] show ?case
    by (simp add: format_step_level format_step_lines)
qed

lemma format_loop_level:
  "change_level (format_loop cfg owner repo md eprs) = aggregate_severity eprs"
  by (simp add: format_loop_def aggregate_severity_def fold_format_step)

lemma entry_levels_range: "l \<in> entry_levels e \<Longrightarrow> 1 \<le> l \<and> l \<le> 3"
  using spec_label_level_range
  by (auto simp: entry_levels_def split: option.splits if_splits)

lemma aggregate_severity_range: "1 \<le> aggregate_severity eprs \<and> aggregate_severity eprs \<le> 3"
proof -
  let ?S = "insert 3 (\<Union> (entry_levels ` set eprs))"
  have fin: "finite ?S" by (simp add: finite_entry_levels)
  have ne: "?S \<noteq> {}" by simp
  from Min_in[OF fin ne] have "Min ?S \<in> ?S" .
  then have "1 \<le> Min ?S" using entry_levels_range by auto
  moreover have "Min ?S \<le> 3" using fin by (simp add: Min_le)
  ultimately show ?thesis by (simp add: aggregate_severity_def)
qed

lemma level_message: "1 \<le> l \<Longrightarrow> l \<le> 3 \<Longrightarrow> map_of CHANGELOG_LEVEL_MESSAGE l = Some (severity_header l)"
proof -
  assume "1 \<le> l" "l \<le> 3"
  then have "l = 1 \<or> l = 2 \<or> l = 3" by arith
  then show ?thesis
    by (auto simp: CHANGELOG_LEVEL_MESSAGE_def severity_header_def)
qed

lemma format_changes_header:
  "format_changes cfg owner repo eprs md
     = Inr (severity_header (aggregate_severity eprs) # lines (format_loop cfg owner repo md eprs))"
  using aggregate_severity_range[of eprs]
  by (simp add: format_changes_def Let_def format_loop_level level_message)

lemma aggregate_le:
  "e \<in> set eprs \<Longrightarrow> l \<in> entry_levels e \<Longrightarrow> aggregate_severity eprs \<le> l"
proof -
  assume "e \<in> set eprs" "l \<in> entry_levels e"
  then have "l \<in> insert 3 (\<Union> (entry_levels ` set eprs))" by blast
  moreover have "finite (insert 3 (\<Union> (entry_levels ` set eprs)))" by (simp add: finite_entry_levels)
  ultimately show ?thesis unfolding aggregate_severity_def by (rule Min_le[rotated])
qed

text \<open>
  Claim C2. The level \<^verbatim>\<open>format_changes\<close> ends its loop with is the least level over the
  start 3, 2 for every entry whose labels are empty or absent, and the level of every
  label, where \<^verbatim>\<open>LABEL_LEVELS.get(label) or 2\<close> is the table of the specification, its keys
  compared as they are written and every other label at 2. The first line returned
  names that level, one line per entry follows, and one label \<^verbatim>\<open>breaking\<close> on any entry
  makes the first line \<^verbatim>\<open>MAJOR RELEASE\<close>.
\<close>

theorem format_changes_severity:
  "change_level (format_loop cfg owner repo md eprs) = aggregate_severity eprs \<and>
   label_level l = spec_label_level l \<and>
   (\<exists>ls. format_changes cfg owner repo eprs md = Inr (severity_header (aggregate_severity eprs) # ls) \<and>
         length ls = length eprs) \<and>
   ((\<exists>e\<in>set eprs. labels_or_empty (labels (details e)) = []) \<longrightarrow> aggregate_severity eprs \<le> 2) \<and>
   ((\<exists>e\<in>set eprs. ''breaking'' \<in> set (labels_or_empty (labels (details e)))) \<longrightarrow>
      (\<exists>ls. format_changes cfg owner repo eprs md = Inr (''MAJOR RELEASE'' # ls)))"
proof (intro conjI impI)
  show "change_level (format_loop cfg owner repo md eprs) = aggregate_severity eprs"
    by (rule format_loop_level)
  show "label_level l = spec_label_level l" by (rule label_level_spec)
  show "\<exists>ls. format_changes cfg owner repo eprs md = Inr (severity_header (aggregate_severity eprs) # ls) \<and>
         length ls = length eprs"
    by (simp add: format_changes_header format_loop_def fold_format_step)
next
  assume "\<exists>e\<in>set eprs. labels_or_empty (labels (details e)) = []"
  then obtain e where e: "e \<in> set eprs" "labels_or_empty (labels (details e)) = []" by blast
  then have "2 \<in> entry_levels e"
    by (auto simp: entry_levels_def labels_or_empty_def split: option.splits)
  with e(1) show "aggregate_severity eprs \<le> 2" by (rule aggregate_le)
next
  assume "\<exists>e\<in>set eprs. ''breaking'' \<in> set (labels_or_empty (labels (details e)))"
  then obtain e where e: "e \<in> set eprs" "''breaking'' \<in> set (labels_or_empty (labels (details e)))"
    by blast
  then obtain ls where ls: "labels (details e) = Some ls" "''breaking'' \<in> set ls"
    by (cases "labels (details e)") (auto simp: labels_or_empty_def)
  have "spec_label_level ''breaking'' = 1" by (simp add: spec_label_level_def)
  with ls have "1 \<in> entry_levels e"
    by (auto simp: entry_levels_def image_iff intro!: bexI[of _ "''breaking''"])
  with e(1) have "aggregate_severity eprs \<le> 1" by (rule aggregate_le)
  with aggregate_severity_range[of eprs] have "aggregate_severity eprs = 1" by simp
  then show "\<exists>ls. format_changes cfg owner repo eprs md = Inr (''MAJOR RELEASE'' # ls)"
    by (simp add: format_changes_header severity_header_def)
qed

text \<open>
  The theorem at three entries: one labelled \<^verbatim>\<open>fix\<close>, one with an unknown label and
  \<^verbatim>\<open>breaking\<close>, one without labels. The upper-case \<^verbatim>\<open>BREAKING\<close> is not a key of the table.
\<close>

theorem format_changes_severity_witness:
  "format_changes example_config ''owner'' ''repo'' labelled_entries False
     = Inr [''MAJOR RELEASE'', ''- first #1'', ''- second #2'', ''- third #3''] \<and>
   change_level (format_loop example_config ''owner'' ''repo'' False labelled_entries) = 1 \<and>
   aggregate_severity labelled_entries = 1 \<and>
   label_level ''BREAKING'' = 2"
proof -
  have r: "format_changes example_config ''owner'' ''repo'' labelled_entries False
     = Inr [''MAJOR RELEASE'', ''- first #1'', ''- second #2'', ''- third #3'']"
    by code_simp
  have c: "change_level (format_loop example_config ''owner'' ''repo'' False labelled_entries) = 1"
    by code_simp
  have b: "\<exists>e\<in>set labelled_entries. ''breaking'' \<in> set (labels_or_empty (labels (details e)))"
    by (simp add: labelled_entries_def labels_or_empty_def)
  have n: "\<exists>e\<in>set labelled_entries. labels_or_empty (labels (details e)) = []"
    by (simp add: labelled_entries_def labels_or_empty_def)
  have s: "spec_label_level ''BREAKING'' = 2" by (simp add: spec_label_level_def)
  from format_changes_severity[of example_config "''owner''" "''repo''" False labelled_entries "''BREAKING''"]
    r c b n s
  show ?thesis by simp
qed





end
